theory Spec2Isabelle
  imports Main "HOL-Library.Word" "HOL-Library.Sublist"
begin

unbundle bit_operations_syntax

section \<open>Console, process exit and standard input\<close>

text \<open>
  A \<open>std::string\<close> is a sequence of bytes; \<^typ>\<open>string\<close> (a list of 8-bit characters)
  stands for it, for text and for binary data alike. \<open>std::endl\<close> writes a line feed.
\<close>

definition endl :: string where
  "endl = [CHR 0x0A]"

text \<open>Decimal printing of a size or a counter, as \<open>operator<<\<close> does for integers.\<close>

definition digit_char :: "nat \<Rightarrow> char" where
  "digit_char d = char_of (48 + d)"

function show_nat :: "nat \<Rightarrow> string" where
  "show_nat n = (if n < 10 then [digit_char n] else show_nat (n div 10) @ [digit_char (n mod 10)])"
  by pat_completeness auto
termination
  by (relation "measure id") auto

declare show_nat.simps [simp del]

definition show_int :: "int \<Rightarrow> string" where
  "show_int i = (if i < 0 then CHR ''-'' # show_nat (nat (- i)) else show_nat (nat i))"

text \<open>
  What a run of a tool leaves behind: its exit code and what it wrote to standard output
  and to standard error.
\<close>

record outcome =
  exit_code :: int
  stdout :: string
  stderr :: string

text \<open>
  A call that may end the process with \<open>exit(code)\<close> after writing to standard error, or
  return a value to its caller.
\<close>

datatype 'a run = Exit int string | Return 'a

text \<open>
  Standard input as the harness sees it: the results of the successive \<open>read(fd, buffer,
  sizeof(buffer))\<close> calls. \<open>Data bs\<close> is a call that returned \<open>length bs\<close> bytes (none at end
  of file), \<open>ReadError msg\<close> a call that returned a negative value, \<open>msg\<close> being
  \<open>strerror(errno)\<close>. Past the end of the list every call returns 0.
\<close>

datatype read_result = Data string | ReadError string

section \<open>The dynamic harness: main.cpp\<close>

definition kReadBufferSize :: nat where
  "kReadBufferSize = 4096"

definition kMaxInputSize :: nat where
  "kMaxInputSize = 100 * 1024 * 1024"

text \<open>
  The loop of \<open>ReadAllFromFd\<close>, with \<open>result\<close> as its accumulator. It ends in one of three
  ways, each keeping the buffer as it stands at that moment: the stream is exhausted, the
  buffer has grown past \<open>kMaxInputSize\<close>, or a read failed.
\<close>

datatype read_status = Complete | TooLarge | ReadFailed string

fun ReadAllFromFd_loop :: "string \<Rightarrow> read_result list \<Rightarrow> read_status \<times> string" where
  "ReadAllFromFd_loop result [] = (Complete, result)"
| "ReadAllFromFd_loop result (ReadError e # fd) = (ReadFailed e, result)"
| "ReadAllFromFd_loop result (Data buffer # fd) =
     (if buffer = [] then (Complete, result)
      else if length (result @ buffer) > kMaxInputSize then (TooLarge, result @ buffer)
      else ReadAllFromFd_loop (result @ buffer) fd)"

definition ReadAllFromFd :: "read_result list \<Rightarrow> string run" where
  "ReadAllFromFd fd =
     (case ReadAllFromFd_loop [] fd of
        (Complete, result) \<Rightarrow> Return result
      | (TooLarge, result) \<Rightarrow>
          Exit 1 (''Error: input exceeds maximum size of '' @ show_nat kMaxInputSize
                  @ '' bytes'' @ endl)
      | (ReadFailed e, result) \<Rightarrow>
          Exit 1 (''Error reading from file descriptor: '' @ e @ endl))"

text \<open>
  The protobuf library is not part of the repository; the harness is written against its
  interface. The calls the three tools make are the fields of this record: \<open>'p\<close> is an
  importer that has read a schema file, \<open>'d\<close> a message descriptor (for the compiled tools,
  the generated message class), \<open>'m\<close> a message. A call that returns \<open>false\<close> or
  \<open>nullptr\<close> is \<open>None\<close>. The streams of the model hold what the tools themselves print;
  what the library may log on its own account is not part of it.
\<close>

datatype diagnostic =
  RecordError string int int string
| RecordWarning string int int string

record ('p, 'd, 'm) protobuf =
  Import :: "string \<Rightarrow> string \<Rightarrow> diagnostic list \<times> 'p option"
  FindMessageTypeByName :: "'p \<Rightarrow> string \<Rightarrow> 'd option"
  message_type_names :: "'p \<Rightarrow> string list"
  GetPrototype :: "'d \<Rightarrow> bool"
  TextFormat_ParseFromString :: "'d \<Rightarrow> string \<Rightarrow> 'm option"
  SerializeToString :: "'m \<Rightarrow> string option"
  ParseFromString :: "'d \<Rightarrow> string \<Rightarrow> 'm option"
  TextFormat_PrintToString :: "'m \<Rightarrow> string option"
  MessageDifferencer_Equals :: "'m \<Rightarrow> 'm \<Rightarrow> bool"
  DebugString :: "'m \<Rightarrow> string"

text \<open>The \<open>ErrorCollector\<close> of main.cpp prints each diagnostic of the importer.\<close>

fun ErrorCollector :: "diagnostic \<Rightarrow> string" where
  "ErrorCollector (RecordError filename line column message) =
     filename @ '':'' @ show_int line @ '':'' @ show_int column @ '': '' @ message @ endl"
| "ErrorCollector (RecordWarning filename line column message) =
     ''warning: '' @ filename @ '':'' @ show_int line @ '':'' @ show_int column @ '': ''
       @ message @ endl"

definition failed :: "string \<Rightarrow> outcome" where
  "failed msg = \<lparr>exit_code = 1, stdout = [], stderr = msg\<rparr>"

definition Encode :: "('p, 'd, 'm) protobuf \<Rightarrow> 'd \<Rightarrow> read_result list \<Rightarrow> outcome" where
  "Encode pb descriptor fd =
     (case ReadAllFromFd fd of
        Exit code msg \<Rightarrow> \<lparr>exit_code = code, stdout = [], stderr = msg\<rparr>
      | Return text_input \<Rightarrow>
          if \<not> GetPrototype pb descriptor
          then failed (''Failed to get prototype for message type'' @ endl)
          else (case TextFormat_ParseFromString pb descriptor text_input of
                  None \<Rightarrow> failed (''Failed to parse text format input'' @ endl)
                | Some message \<Rightarrow>
                    (case SerializeToString pb message of
                       None \<Rightarrow> failed (''Failed to serialize message'' @ endl)
                     | Some binary_output \<Rightarrow>
                         \<lparr>exit_code = 0, stdout = binary_output, stderr = []\<rparr>)))"

definition Decode :: "('p, 'd, 'm) protobuf \<Rightarrow> 'd \<Rightarrow> read_result list \<Rightarrow> outcome" where
  "Decode pb descriptor fd =
     (case ReadAllFromFd fd of
        Exit code msg \<Rightarrow> \<lparr>exit_code = code, stdout = [], stderr = msg\<rparr>
      | Return binary_input \<Rightarrow>
          if \<not> GetPrototype pb descriptor
          then failed (''Failed to get prototype for message type'' @ endl)
          else (case ParseFromString pb descriptor binary_input of
                  None \<Rightarrow> failed (''Failed to parse binary input'' @ endl)
                | Some message \<Rightarrow>
                    (case TextFormat_PrintToString pb message of
                       None \<Rightarrow> failed (''Failed to print text format'' @ endl)
                     | Some text_output \<Rightarrow>
                         \<lparr>exit_code = 0, stdout = text_output, stderr = []\<rparr>)))"

definition Roundtrip :: "('p, 'd, 'm) protobuf \<Rightarrow> 'd \<Rightarrow> read_result list \<Rightarrow> outcome" where
  "Roundtrip pb descriptor fd =
     (case ReadAllFromFd fd of
        Exit code msg \<Rightarrow> \<lparr>exit_code = code, stdout = [], stderr = msg\<rparr>
      | Return text_input \<Rightarrow>
          if \<not> GetPrototype pb descriptor
          then failed (''Failed to get prototype for message type'' @ endl)
          else (case TextFormat_ParseFromString pb descriptor text_input of
                  None \<Rightarrow> failed (''Failed to parse text format input'' @ endl)
                | Some message1 \<Rightarrow>
                    (case SerializeToString pb message1 of
                       None \<Rightarrow> failed (''Failed to serialize message'' @ endl)
                     | Some binary \<Rightarrow>
                         (case ParseFromString pb descriptor binary of
                            None \<Rightarrow> failed (''Failed to parse binary'' @ endl)
                          | Some message2 \<Rightarrow>
                              if \<not> MessageDifferencer_Equals pb message1 message2
                              then failed (''Roundtrip mismatch!'' @ endl
                                     @ ''Original:'' @ endl @ DebugString pb message1 @ endl
                                     @ ''After roundtrip:'' @ endl @ DebugString pb message2
                                     @ endl)
                              else \<lparr>exit_code = 0, stdout = binary,
                                     stderr = ''Roundtrip OK ('' @ show_nat (length binary)
                                       @ '' bytes)'' @ endl\<rparr>))))"

text \<open>The flags of main.cpp, after \<open>absl::ParseCommandLine\<close>.\<close>

record flags =
  FLAGS_mode :: string
  FLAGS_proto :: string
  FLAGS_message :: string
  FLAGS_proto_path :: string

definition main_dynamic :: "('p, 'd, 'm) protobuf \<Rightarrow> flags \<Rightarrow> read_result list \<Rightarrow> outcome" where
  "main_dynamic pb fl fd =
     (let mode = FLAGS_mode fl; proto_file = FLAGS_proto fl;
          message_name = FLAGS_message fl; proto_path = FLAGS_proto_path fl
      in if proto_file = [] then failed (''Error: --proto is required'' @ endl)
         else if message_name = [] then failed (''Error: --message is required'' @ endl)
         else (case Import pb proto_path proto_file of
                 (diags, None) \<Rightarrow>
                   failed (concat (map ErrorCollector diags)
                           @ ''Failed to import proto file: '' @ proto_file @ endl)
               | (diags, Some importer) \<Rightarrow>
                   (case FindMessageTypeByName pb importer message_name of
                      None \<Rightarrow>
                        failed (concat (map ErrorCollector diags)
                                @ ''Message not found: '' @ message_name @ endl
                                @ ''Available messages in '' @ proto_file @ '':'' @ endl
                                @ concat (map (\<lambda>full_name. ''  '' @ full_name @ endl)
                                            (message_type_names pb importer)))
                    | Some descriptor \<Rightarrow>
                        (let r = (if mode = ''encode'' then Encode pb descriptor fd
                                  else if mode = ''decode'' then Decode pb descriptor fd
                                  else if mode = ''roundtrip'' then Roundtrip pb descriptor fd
                                  else failed (''Unknown mode: '' @ mode @ endl))
                         in r\<lparr>stderr := concat (map ErrorCollector diags) @ stderr r\<rparr>))))"

section \<open>The compiled harness: main_compiled.cpp\<close>

text \<open>
  The same three operations as templates over a generated message class; there is no
  prototype lookup. The two classes of \<open>proto/test.pb.h\<close> play the descriptor's part.
\<close>

datatype fuzztest = TestMessage | NestedExample

definition Encode_T :: "('p, 'd, 'm) protobuf \<Rightarrow> 'd \<Rightarrow> read_result list \<Rightarrow> outcome" where
  "Encode_T pb T fd =
     (case ReadAllFromFd fd of
        Exit code msg \<Rightarrow> \<lparr>exit_code = code, stdout = [], stderr = msg\<rparr>
      | Return text_input \<Rightarrow>
          (case TextFormat_ParseFromString pb T text_input of
             None \<Rightarrow> failed (''Failed to parse text format input'' @ endl)
           | Some message \<Rightarrow>
               (case SerializeToString pb message of
                  None \<Rightarrow> failed (''Failed to serialize message'' @ endl)
                | Some binary_output \<Rightarrow>
                    \<lparr>exit_code = 0, stdout = binary_output, stderr = []\<rparr>)))"

definition Decode_T :: "('p, 'd, 'm) protobuf \<Rightarrow> 'd \<Rightarrow> read_result list \<Rightarrow> outcome" where
  "Decode_T pb T fd =
     (case ReadAllFromFd fd of
        Exit code msg \<Rightarrow> \<lparr>exit_code = code, stdout = [], stderr = msg\<rparr>
      | Return binary_input \<Rightarrow>
          (case ParseFromString pb T binary_input of
             None \<Rightarrow> failed (''Failed to parse binary input'' @ endl)
           | Some message \<Rightarrow>
               (case TextFormat_PrintToString pb message of
                  None \<Rightarrow> failed (''Failed to print text format'' @ endl)
                | Some text_output \<Rightarrow>
                    \<lparr>exit_code = 0, stdout = text_output, stderr = []\<rparr>)))"

definition Roundtrip_T :: "('p, 'd, 'm) protobuf \<Rightarrow> 'd \<Rightarrow> read_result list \<Rightarrow> outcome" where
  "Roundtrip_T pb T fd =
     (case ReadAllFromFd fd of
        Exit code msg \<Rightarrow> \<lparr>exit_code = code, stdout = [], stderr = msg\<rparr>
      | Return text_input \<Rightarrow>
          (case TextFormat_ParseFromString pb T text_input of
             None \<Rightarrow> failed (''Failed to parse text format input'' @ endl)
           | Some message1 \<Rightarrow>
               (case SerializeToString pb message1 of
                  None \<Rightarrow> failed (''Failed to serialize message'' @ endl)
                | Some binary \<Rightarrow>
                    (case ParseFromString pb T binary of
                       None \<Rightarrow> failed (''Failed to parse binary'' @ endl)
                     | Some message2 \<Rightarrow>
                         if \<not> MessageDifferencer_Equals pb message1 message2
                         then failed (''Roundtrip mismatch!'' @ endl
                                @ ''Original:'' @ endl @ DebugString pb message1 @ endl
                                @ ''After roundtrip:'' @ endl @ DebugString pb message2
                                @ endl)
                         else \<lparr>exit_code = 0, stdout = binary,
                                stderr = ''Roundtrip OK ('' @ show_nat (length binary)
                                  @ '' bytes)'' @ endl\<rparr>))))"

definition RunWithMessage ::
  "('p, 'd, 'm) protobuf \<Rightarrow> 'd \<Rightarrow> string \<Rightarrow> read_result list \<Rightarrow> outcome" where
  "RunWithMessage pb T mode fd =
     (if mode = ''encode'' then Encode_T pb T fd
      else if mode = ''decode'' then Decode_T pb T fd
      else if mode = ''roundtrip'' then Roundtrip_T pb T fd
      else failed (''Unknown mode: '' @ mode @ endl))"

definition main_compiled ::
  "('p, fuzztest, 'm) protobuf \<Rightarrow> string \<Rightarrow> string \<Rightarrow> read_result list \<Rightarrow> outcome" where
  "main_compiled pb mode message fd =
     (if message = ''TestMessage'' then RunWithMessage pb TestMessage mode fd
      else if message = ''NestedExample'' then RunWithMessage pb NestedExample mode fd
      else failed (''Unknown message type: '' @ message @ endl
                   @ ''Available: TestMessage, NestedExample'' @ endl))"

section \<open>The operations over a library with effects\<close>

text \<open>
  A call into the library may change a state that belongs to the library (a descriptor
  pool, an arena, a log) and may answer differently when it is made again. To say which
  calls a run makes, the six operations are given once more with that state made
  explicit: every call takes the library's state and returns its answer with the next
  state, in the order of the statements of the source, and an operation returns the state
  it leaves behind. \<open>GetPrototype\<close>, \<open>TextFormat::ParseFromString\<close>,
  \<open>SerializeToString\<close>, \<open>ParseFromString\<close>, \<open>TextFormat::PrintToString\<close>,
  \<open>MessageDifferencer::Equals\<close> and \<open>DebugString\<close> are the calls the operations make.
\<close>

record ('s, 'd, 'm) library =
  call_GetPrototype :: "'d \<Rightarrow> 's \<Rightarrow> bool \<times> 's"
  call_TextFormat_ParseFromString :: "'d \<Rightarrow> string \<Rightarrow> 's \<Rightarrow> 'm option \<times> 's"
  call_SerializeToString :: "'m \<Rightarrow> 's \<Rightarrow> string option \<times> 's"
  call_ParseFromString :: "'d \<Rightarrow> string \<Rightarrow> 's \<Rightarrow> 'm option \<times> 's"
  call_TextFormat_PrintToString :: "'m \<Rightarrow> 's \<Rightarrow> string option \<times> 's"
  call_MessageDifferencer_Equals :: "'m \<Rightarrow> 'm \<Rightarrow> 's \<Rightarrow> bool \<times> 's"
  call_DebugString :: "'m \<Rightarrow> 's \<Rightarrow> string \<times> 's"

text \<open>\<open>Encode\<close>, \<open>Decode\<close> and \<open>Roundtrip\<close> of main.cpp, call by call.\<close>

definition Encode_st ::
  "('s, 'd, 'm) library \<Rightarrow> 'd \<Rightarrow> read_result list \<Rightarrow> 's \<Rightarrow> outcome \<times> 's" where
  "Encode_st lib descriptor fd s =
     (case ReadAllFromFd fd of
        Exit code msg \<Rightarrow> (\<lparr>exit_code = code, stdout = [], stderr = msg\<rparr>, s)
      | Return text_input \<Rightarrow>
          (case call_GetPrototype lib descriptor s of
             (False, s1) \<Rightarrow> (failed (''Failed to get prototype for message type'' @ endl), s1)
           | (True, s1) \<Rightarrow>
               (case call_TextFormat_ParseFromString lib descriptor text_input s1 of
                  (None, s2) \<Rightarrow> (failed (''Failed to parse text format input'' @ endl), s2)
                | (Some message, s2) \<Rightarrow>
                    (case call_SerializeToString lib message s2 of
                       (None, s3) \<Rightarrow> (failed (''Failed to serialize message'' @ endl), s3)
                     | (Some binary_output, s3) \<Rightarrow>
                         (\<lparr>exit_code = 0, stdout = binary_output, stderr = []\<rparr>, s3)))))"

definition Decode_st ::
  "('s, 'd, 'm) library \<Rightarrow> 'd \<Rightarrow> read_result list \<Rightarrow> 's \<Rightarrow> outcome \<times> 's" where
  "Decode_st lib descriptor fd s =
     (case ReadAllFromFd fd of
        Exit code msg \<Rightarrow> (\<lparr>exit_code = code, stdout = [], stderr = msg\<rparr>, s)
      | Return binary_input \<Rightarrow>
          (case call_GetPrototype lib descriptor s of
             (False, s1) \<Rightarrow> (failed (''Failed to get prototype for message type'' @ endl), s1)
           | (True, s1) \<Rightarrow>
               (case call_ParseFromString lib descriptor binary_input s1 of
                  (None, s2) \<Rightarrow> (failed (''Failed to parse binary input'' @ endl), s2)
                | (Some message, s2) \<Rightarrow>
                    (case call_TextFormat_PrintToString lib message s2 of
                       (None, s3) \<Rightarrow> (failed (''Failed to print text format'' @ endl), s3)
                     | (Some text_output, s3) \<Rightarrow>
                         (\<lparr>exit_code = 0, stdout = text_output, stderr = []\<rparr>, s3)))))"

definition Roundtrip_st ::
  "('s, 'd, 'm) library \<Rightarrow> 'd \<Rightarrow> read_result list \<Rightarrow> 's \<Rightarrow> outcome \<times> 's" where
  "Roundtrip_st lib descriptor fd s =
     (case ReadAllFromFd fd of
        Exit code msg \<Rightarrow> (\<lparr>exit_code = code, stdout = [], stderr = msg\<rparr>, s)
      | Return text_input \<Rightarrow>
          (case call_GetPrototype lib descriptor s of
             (False, s1) \<Rightarrow> (failed (''Failed to get prototype for message type'' @ endl), s1)
           | (True, s1) \<Rightarrow>
               (case call_TextFormat_ParseFromString lib descriptor text_input s1 of
                  (None, s2) \<Rightarrow> (failed (''Failed to parse text format input'' @ endl), s2)
                | (Some message1, s2) \<Rightarrow>
                    (case call_SerializeToString lib message1 s2 of
                       (None, s3) \<Rightarrow> (failed (''Failed to serialize message'' @ endl), s3)
                     | (Some binary, s3) \<Rightarrow>
                         (case call_ParseFromString lib descriptor binary s3 of
                            (None, s4) \<Rightarrow> (failed (''Failed to parse binary'' @ endl), s4)
                          | (Some message2, s4) \<Rightarrow>
                              (case call_MessageDifferencer_Equals lib message1 message2 s4 of
                                 (False, s5) \<Rightarrow>
                                   (case call_DebugString lib message1 s5 of
                                      (original, s6) \<Rightarrow>
                                        (case call_DebugString lib message2 s6 of
                                           (after, s7) \<Rightarrow>
                                             (failed (''Roundtrip mismatch!'' @ endl
                                                @ ''Original:'' @ endl @ original @ endl
                                                @ ''After roundtrip:'' @ endl @ after @ endl),
                                              s7)))
                               | (True, s5) \<Rightarrow>
                                   (\<lparr>exit_code = 0, stdout = binary,
                                     stderr = ''Roundtrip OK ('' @ show_nat (length binary)
                                       @ '' bytes)'' @ endl\<rparr>, s5)))))))"

text \<open>The three templates of main_compiled.cpp, call by call.\<close>

definition Encode_T_st ::
  "('s, 'd, 'm) library \<Rightarrow> 'd \<Rightarrow> read_result list \<Rightarrow> 's \<Rightarrow> outcome \<times> 's" where
  "Encode_T_st lib T fd s =
     (case ReadAllFromFd fd of
        Exit code msg \<Rightarrow> (\<lparr>exit_code = code, stdout = [], stderr = msg\<rparr>, s)
      | Return text_input \<Rightarrow>
          (case call_TextFormat_ParseFromString lib T text_input s of
             (None, s1) \<Rightarrow> (failed (''Failed to parse text format input'' @ endl), s1)
           | (Some message, s1) \<Rightarrow>
               (case call_SerializeToString lib message s1 of
                  (None, s2) \<Rightarrow> (failed (''Failed to serialize message'' @ endl), s2)
                | (Some binary_output, s2) \<Rightarrow>
                    (\<lparr>exit_code = 0, stdout = binary_output, stderr = []\<rparr>, s2))))"

definition Decode_T_st ::
  "('s, 'd, 'm) library \<Rightarrow> 'd \<Rightarrow> read_result list \<Rightarrow> 's \<Rightarrow> outcome \<times> 's" where
  "Decode_T_st lib T fd s =
     (case ReadAllFromFd fd of
        Exit code msg \<Rightarrow> (\<lparr>exit_code = code, stdout = [], stderr = msg\<rparr>, s)
      | Return binary_input \<Rightarrow>
          (case call_ParseFromString lib T binary_input s of
             (None, s1) \<Rightarrow> (failed (''Failed to parse binary input'' @ endl), s1)
           | (Some message, s1) \<Rightarrow>
               (case call_TextFormat_PrintToString lib message s1 of
                  (None, s2) \<Rightarrow> (failed (''Failed to print text format'' @ endl), s2)
                | (Some text_output, s2) \<Rightarrow>
                    (\<lparr>exit_code = 0, stdout = text_output, stderr = []\<rparr>, s2))))"

definition Roundtrip_T_st ::
  "('s, 'd, 'm) library \<Rightarrow> 'd \<Rightarrow> read_result list \<Rightarrow> 's \<Rightarrow> outcome \<times> 's" where
  "Roundtrip_T_st lib T fd s =
     (case ReadAllFromFd fd of
        Exit code msg \<Rightarrow> (\<lparr>exit_code = code, stdout = [], stderr = msg\<rparr>, s)
      | Return text_input \<Rightarrow>
          (case call_TextFormat_ParseFromString lib T text_input s of
             (None, s1) \<Rightarrow> (failed (''Failed to parse text format input'' @ endl), s1)
           | (Some message1, s1) \<Rightarrow>
               (case call_SerializeToString lib message1 s1 of
                  (None, s2) \<Rightarrow> (failed (''Failed to serialize message'' @ endl), s2)
                | (Some binary, s2) \<Rightarrow>
                    (case call_ParseFromString lib T binary s2 of
                       (None, s3) \<Rightarrow> (failed (''Failed to parse binary'' @ endl), s3)
                     | (Some message2, s3) \<Rightarrow>
                         (case call_MessageDifferencer_Equals lib message1 message2 s3 of
                            (False, s4) \<Rightarrow>
                              (case call_DebugString lib message1 s4 of
                                 (original, s5) \<Rightarrow>
                                   (case call_DebugString lib message2 s5 of
                                      (after, s6) \<Rightarrow>
                                        (failed (''Roundtrip mismatch!'' @ endl
                                           @ ''Original:'' @ endl @ original @ endl
                                           @ ''After roundtrip:'' @ endl @ after @ endl),
                                         s6)))
                          | (True, s4) \<Rightarrow>
                              (\<lparr>exit_code = 0, stdout = binary,
                                stderr = ''Roundtrip OK ('' @ show_nat (length binary)
                                  @ '' bytes)'' @ endl\<rparr>, s4))))))"

text \<open>
  A library whose answers neither depend on a state nor change one: the library of the
  sections above.
\<close>

definition stateless :: "('p, 'd, 'm) protobuf \<Rightarrow> ('s, 'd, 'm) library" where
  "stateless pb =
     \<lparr>call_GetPrototype = (\<lambda>d s. (GetPrototype pb d, s)),
      call_TextFormat_ParseFromString = (\<lambda>d input s. (TextFormat_ParseFromString pb d input, s)),
      call_SerializeToString = (\<lambda>m s. (SerializeToString pb m, s)),
      call_ParseFromString = (\<lambda>d input s. (ParseFromString pb d input, s)),
      call_TextFormat_PrintToString = (\<lambda>m s. (TextFormat_PrintToString pb m, s)),
      call_MessageDifferencer_Equals = (\<lambda>a b s. (MessageDifferencer_Equals pb a b, s)),
      call_DebugString = (\<lambda>m s. (DebugString pb m, s))\<rparr>"

text \<open>
  The calls a run makes: a library that records the name of every call it receives, in
  order, beside its own state.
\<close>

datatype call =
  GetPrototype_call | TextFormat_ParseFromString_call | SerializeToString_call
| ParseFromString_call | TextFormat_PrintToString_call | MessageDifferencer_Equals_call
| DebugString_call

definition logged :: "('s, 'd, 'm) library \<Rightarrow> ('s \<times> call list, 'd, 'm) library" where
  "logged lib =
     \<lparr>call_GetPrototype = (\<lambda>d sl.
        (fst (call_GetPrototype lib d (fst sl)),
         (snd (call_GetPrototype lib d (fst sl)), snd sl @ [GetPrototype_call]))),
      call_TextFormat_ParseFromString = (\<lambda>d input sl.
        (fst (call_TextFormat_ParseFromString lib d input (fst sl)),
         (snd (call_TextFormat_ParseFromString lib d input (fst sl)),
          snd sl @ [TextFormat_ParseFromString_call]))),
      call_SerializeToString = (\<lambda>m sl.
        (fst (call_SerializeToString lib m (fst sl)),
         (snd (call_SerializeToString lib m (fst sl)), snd sl @ [SerializeToString_call]))),
      call_ParseFromString = (\<lambda>d input sl.
        (fst (call_ParseFromString lib d input (fst sl)),
         (snd (call_ParseFromString lib d input (fst sl)), snd sl @ [ParseFromString_call]))),
      call_TextFormat_PrintToString = (\<lambda>m sl.
        (fst (call_TextFormat_PrintToString lib m (fst sl)),
         (snd (call_TextFormat_PrintToString lib m (fst sl)),
          snd sl @ [TextFormat_PrintToString_call]))),
      call_MessageDifferencer_Equals = (\<lambda>a b sl.
        (fst (call_MessageDifferencer_Equals lib a b (fst sl)),
         (snd (call_MessageDifferencer_Equals lib a b (fst sl)),
          snd sl @ [MessageDifferencer_Equals_call]))),
      call_DebugString = (\<lambda>m sl.
        (fst (call_DebugString lib m (fst sl)),
         (snd (call_DebugString lib m (fst sl)), snd sl @ [DebugString_call])))\<rparr>"

section \<open>The batch driver: generate_binaries.cpp\<close>

text \<open>
  The driver works on the file system through four calls. Their behaviour belongs to the
  operating system, so the model takes them as a record of functions over a state \<open>'w\<close> of
  the file system: opening a file for reading and reading it whole (\<open>None\<close> when the open
  fails), \<open>stat\<close>, \<open>mkdir\<close> (its result is ignored by the code), and creating a file and
  writing it (\<open>None\<close> when the open fails).
\<close>

record 'w os =
  ifstream_read :: "'w \<Rightarrow> string \<Rightarrow> string option"
  stat_ok :: "'w \<Rightarrow> string \<Rightarrow> bool"
  mkdir :: "'w \<Rightarrow> string \<Rightarrow> 'w"
  ofstream_write :: "'w \<Rightarrow> string \<Rightarrow> string \<Rightarrow> 'w option"

text \<open>
  The state a run threads through its calls: the file system, the two console streams, and
  the list of the files written so far (path and content, oldest first). \<open>WriteFile\<close> does
  not look at the result of \<open>file.write\<close>, so a file counts as written once it is opened
  and its content handed over.
\<close>

record 'w env =
  world :: 'w
  cout :: string
  cerr :: string
  written :: "(string \<times> string) list"

definition JoinPath :: "string \<Rightarrow> string \<Rightarrow> string" where
  "JoinPath a b =
     (if a = [] then b
      else if b = [] then a
      else if last a = CHR ''/'' then a @ b
      else a @ ''/'' @ b)"

definition DirName :: "string \<Rightarrow> string" where
  "DirName path =
     (if CHR ''/'' \<notin> set path then ''.''
      else rev (tl (dropWhile (\<lambda>c. c \<noteq> CHR ''/'') (rev path))))"

fun MkdirP_loop :: "'w os \<Rightarrow> string \<Rightarrow> string \<Rightarrow> 'w \<Rightarrow> 'w" where
  "MkdirP_loop os current [] w = w"
| "MkdirP_loop os current (c # cs) w =
     MkdirP_loop os (current @ [c]) cs
       (if c = CHR ''/'' then mkdir os w (current @ [c]) else w)"

definition MkdirP :: "'w os \<Rightarrow> string \<Rightarrow> 'w \<Rightarrow> 'w" where
  "MkdirP os path w = mkdir os (MkdirP_loop os [] path w) path"

definition FileExists :: "'w os \<Rightarrow> string \<Rightarrow> 'w env \<Rightarrow> bool" where
  "FileExists os path e = stat_ok os (world e) path"

definition ReadFile :: "'w os \<Rightarrow> string \<Rightarrow> 'w env \<Rightarrow> string \<times> 'w env" where
  "ReadFile os path e =
     (case ifstream_read os (world e) path of
        None \<Rightarrow> ([], e\<lparr>cerr := cerr e @ ''Failed to open: '' @ path @ endl\<rparr>)
      | Some content \<Rightarrow> (content, e))"

definition WriteFile :: "'w os \<Rightarrow> string \<Rightarrow> string \<Rightarrow> 'w env \<Rightarrow> bool \<times> 'w env" where
  "WriteFile os path data e =
     (let e1 = e\<lparr>world := MkdirP os (DirName path) (world e)\<rparr>
      in case ofstream_write os (world e1) path data of
           None \<Rightarrow> (False, e1\<lparr>cerr := cerr e1 @ ''Failed to create: '' @ path @ endl\<rparr>)
         | Some w' \<Rightarrow> (True, e1\<lparr>world := w', written := written e1 @ [(path, data)]\<rparr>))"

definition ProcessTestCase ::
  "'w os \<Rightarrow> ('p, 'd, 'm) protobuf \<Rightarrow> 'd \<Rightarrow> string \<Rightarrow> string \<Rightarrow> 'w env \<Rightarrow> bool \<times> 'w env" where
  "ProcessTestCase os pb T textproto_path bin_path e =
     (case ReadFile os textproto_path e of
        (text_content, e1) \<Rightarrow>
          if text_content = [] \<and> \<not> FileExists os textproto_path e1 then (False, e1)
          else (case TextFormat_ParseFromString pb T text_content of
                  None \<Rightarrow>
                    (False, e1\<lparr>cerr := cerr e1 @ ''Failed to parse: '' @ textproto_path @ endl\<rparr>)
                | Some message \<Rightarrow>
                    (case SerializeToString pb message of
                       None \<Rightarrow>
                         (False, e1\<lparr>cerr := cerr e1 @ ''Failed to serialize: ''
                                            @ textproto_path @ endl\<rparr>)
                     | Some binary \<Rightarrow>
                         (case WriteFile os bin_path binary e1 of
                            (False, e2) \<Rightarrow> (False, e2)
                          | (True, e2) \<Rightarrow>
                              (True, e2\<lparr>cout := cout e2 @ ''Generated: '' @ bin_path @ '' (''
                                                @ show_nat (length binary) @ '' bytes)''
                                                @ endl\<rparr>)))))"

text \<open>
  \<open>absl::StrSplit(line, ' ')\<close> cuts at every single delimiter and keeps empty pieces;
  \<open>std::getline\<close> cuts the stream at line feeds, a final line needing none.
\<close>

fun StrSplit :: "string \<Rightarrow> char \<Rightarrow> string list" where
  "StrSplit [] d = [[]]"
| "StrSplit (c # cs) d =
     (if c = d then [] # StrSplit cs d
      else (case StrSplit cs d of
              [] \<Rightarrow> [[c]]
            | piece # pieces \<Rightarrow> (c # piece) # pieces))"

fun getlines :: "string \<Rightarrow> string \<Rightarrow> string list" where
  "getlines line [] = (if line = [] then [] else [line])"
| "getlines line (c # cs) =
     (if c = CHR 0x0A then line # getlines [] cs else getlines (line @ [c]) cs)"

text \<open>The message classes of the conformance protos that \<open>ProcessCategory\<close> dispatches on.\<close>

definition conformance_messages :: "string list" where
  "conformance_messages =
     [''Scalars'', ''Int32Value'', ''Int64Value'', ''Uint32Value'', ''Uint64Value'',
      ''Sint32Value'', ''Sint64Value'', ''BoolValue'', ''Fixed32Value'', ''Sfixed32Value'',
      ''Fixed64Value'', ''Sfixed64Value'', ''FloatValue'', ''DoubleValue'', ''StringValue'',
      ''BytesValue'',
      ''RepeatedScalars'', ''RepeatedInt32'', ''RepeatedInt64'', ''RepeatedUint32'',
      ''RepeatedUint64'', ''RepeatedSint32'', ''RepeatedSint64'', ''RepeatedBool'',
      ''RepeatedFixed32'', ''RepeatedSfixed32'', ''RepeatedFixed64'', ''RepeatedSfixed64'',
      ''RepeatedFloat'', ''RepeatedDouble'', ''RepeatedString'', ''RepeatedBytes'',
      ''Outer'', ''Level0'', ''Node'', ''OptionalNested'',
      ''FieldNumbers'', ''WireTypes'', ''Empty'', ''AllDefaults'', ''OptionalFields'']"

text \<open>
  The state of the loop of \<open>ProcessCategory\<close>: the two counters and the environment. The
  counters are C \<open>int\<close>s; the model counts in \<^typ>\<open>nat\<close>, which agrees with the code for
  every \<open>tests.txt\<close> of fewer than \<open>2^31\<close> lines.
\<close>

record 'w tally =
  success_count :: nat
  fail_count :: nat
  tally_env :: "'w env"

definition textproto_path_of :: "string \<Rightarrow> string \<Rightarrow> string \<Rightarrow> string" where
  "textproto_path_of input_dir category test_name =
     JoinPath (JoinPath input_dir category) (test_name @ ''.textproto'')"

definition bin_path_of :: "string \<Rightarrow> string \<Rightarrow> string \<Rightarrow> string" where
  "bin_path_of output_dir category test_name =
     JoinPath (JoinPath output_dir category) (test_name @ ''.bin'')"

definition ProcessCategory_body ::
  "'w os \<Rightarrow> ('p, string, 'm) protobuf \<Rightarrow> string \<Rightarrow> string \<Rightarrow> string \<Rightarrow> 'w tally \<Rightarrow> string
     \<Rightarrow> 'w tally" where
  "ProcessCategory_body os pb input_dir output_dir category t line =
     (if line = [] \<or> hd line = CHR ''#'' then t
      else
        let parts = StrSplit line CHR '' '' in
        if length parts \<noteq> 2
        then t\<lparr>tally_env := (tally_env t)\<lparr>cerr := cerr (tally_env t)
                 @ ''Invalid line in tests.txt: '' @ line @ endl\<rparr>\<rparr>
        else
          let test_name = parts ! 0;
              message_type = parts ! 1;
              textproto_path = textproto_path_of input_dir category test_name;
              bin_path = bin_path_of output_dir category test_name
          in if message_type \<in> set conformance_messages
             then (case ProcessTestCase os pb message_type textproto_path bin_path (tally_env t) of
                     (True, e) \<Rightarrow> t\<lparr>success_count := success_count t + 1, tally_env := e\<rparr>
                   | (False, e) \<Rightarrow> t\<lparr>fail_count := fail_count t + 1, tally_env := e\<rparr>)
             else t\<lparr>fail_count := fail_count t + 1,
                    tally_env := (tally_env t)\<lparr>cerr := cerr (tally_env t)
                      @ ''Unknown message type: '' @ message_type @ endl\<rparr>\<rparr>)"

definition tests_file_of :: "string \<Rightarrow> string \<Rightarrow> string" where
  "tests_file_of input_dir category = JoinPath (JoinPath input_dir category) ''tests.txt''"

text \<open>
  The \<open>while (std::getline(file, line))\<close> loop, over the lines of \<open>tests.txt\<close> as the file
  stood when it was opened.
\<close>

definition ProcessCategory_loop ::
  "'w os \<Rightarrow> ('p, string, 'm) protobuf \<Rightarrow> string \<Rightarrow> string \<Rightarrow> string \<Rightarrow> 'w env \<Rightarrow> string list
     \<Rightarrow> 'w tally" where
  "ProcessCategory_loop os pb input_dir output_dir category e lines =
     foldl (ProcessCategory_body os pb input_dir output_dir category)
       \<lparr>success_count = 0, fail_count = 0, tally_env = e\<rparr> lines"

definition ProcessCategory ::
  "'w os \<Rightarrow> ('p, string, 'm) protobuf \<Rightarrow> string \<Rightarrow> string \<Rightarrow> string \<Rightarrow> 'w env
     \<Rightarrow> bool \<times> 'w env" where
  "ProcessCategory os pb input_dir output_dir category e =
     (let tests_file = tests_file_of input_dir category in
      case ifstream_read os (world e) tests_file of
        None \<Rightarrow> (True, e\<lparr>cerr := cerr e @ ''No tests.txt found: '' @ tests_file @ endl\<rparr>)
      | Some content \<Rightarrow>
          let t = ProcessCategory_loop os pb input_dir output_dir category e
                    (getlines [] content);
              e' = tally_env t
          in (fail_count t = 0,
              e'\<lparr>cout := cout e' @ ''Category '' @ category @ '': ''
                     @ show_nat (success_count t) @ '' succeeded, ''
                     @ show_nat (fail_count t) @ '' failed'' @ endl\<rparr>))"

definition main_generate ::
  "'w os \<Rightarrow> ('p, string, 'm) protobuf \<Rightarrow> string \<Rightarrow> string \<Rightarrow> 'w \<Rightarrow> int \<times> 'w env" where
  "main_generate os pb FLAGS_output_dir FLAGS_input_dir w =
     (let output_dir = FLAGS_output_dir;
          e = \<lparr>world = w, cout = [], cerr = [], written = []\<rparr>
      in if output_dir = []
         then (1, e\<lparr>cerr := ''Error: --output_dir is required'' @ endl\<rparr>)
         else
           let input_dir = (if FLAGS_input_dir = [] then output_dir else FLAGS_input_dir);
               e0 = e\<lparr>cout := ''Input directory: '' @ input_dir @ endl
                              @ ''Output directory: '' @ output_dir @ endl\<rparr>;
               r1 = ProcessCategory os pb input_dir output_dir ''scalars'' e0;
               r2 = ProcessCategory os pb input_dir output_dir ''repeated'' (snd r1);
               r3 = ProcessCategory os pb input_dir output_dir ''nested'' (snd r2);
               r4 = ProcessCategory os pb input_dir output_dir ''edge_cases'' (snd r3);
               all_ok = (fst r1 \<and> fst r2 \<and> fst r3 \<and> fst r4);
               e4 = snd r4
           in if all_ok
              then (0, e4\<lparr>cout := cout e4 @ endl @ ''All test cases generated successfully!''
                                    @ endl\<rparr>)
              else (1, e4\<lparr>cerr := cerr e4 @ endl @ ''Some test cases failed to generate.''
                                    @ endl\<rparr>))"

section \<open>The engine the tools call, as the specification describes it\<close>

text \<open>
  The three tools reach the codec only through the protobuf library, whose sources are not
  in the repository. The definitions of this section follow sections 3 and 4 of the
  specification instead; each says so. They serve the claims that are about the codec
  itself and give the harness a concrete library to run against.
\<close>

text \<open>Modelled from the spec: the cardinality of a FieldDescriptor (section 3); the
  descriptor types are missing from the sources.\<close>

datatype cardinality = Singular | Repeated

text \<open>Modelled from the spec: the value kinds of section 3 (integers signed, unsigned and
  zigzag in both widths, bool, the fixed-width kinds, float, double, string, bytes, nested
  message). A nested message names its descriptor by its id in the repository.\<close>

datatype kind =
  KInt32 | KInt64 | KUInt32 | KUInt64 | KSInt32 | KSInt64 | KBool
| KFixed32 | KFixed64 | KSFixed32 | KSFixed64 | KFloat | KDouble
| KString | KBytes | KMessage nat

text \<open>Modelled from the spec: FieldDescriptor of section 3 (number, name, cardinality,
  value kind; the wire type is derived, see \<open>wire_type\<close>).\<close>

record FieldDescriptor =
  fd_number :: nat
  fd_name :: string
  fd_cardinality :: cardinality
  fd_kind :: kind

text \<open>Modelled from the spec: MessageDescriptor of section 3, a name and the fields in
  declared order.\<close>

record MessageDescriptor =
  md_name :: string
  md_fields :: "FieldDescriptor list"

text \<open>Modelled from the spec: the SchemaRepository of section 3, an arena of descriptors
  addressed by position (section 9).\<close>

type_synonym SchemaRepository = "MessageDescriptor list"

text \<open>Modelled from the spec: an UnknownField record of section 3 (original field number,
  wire type, raw payload bytes).\<close>

datatype UnknownField = UnknownField (uf_number: nat) (uf_wire_type: nat) (uf_payload: string)

text \<open>Modelled from the spec: FieldValue and DynamicMessage of section 3. A message maps
  field numbers to their values in insertion order (a singular field that is present holds
  one value, an absent field has no entry) and carries its unknown fields in order. A float
  or double is its IEEE bit pattern.\<close>

datatype FieldValue =
  VInt int | VBool bool | VFloat "32 word" | VDouble "64 word"
| VString string | VBytes string | VMessage DynamicMessage
and DynamicMessage =
  DynamicMessage (known: "(nat \<times> FieldValue list) list") (unknown: "UnknownField list")

text \<open>Modelled from the spec: the errors of section 7 that the operations below signal
  (NotFound of section 4.1, the store's and the text parser's errors, the decoder's, and
  ResourceExceeded with the offending length). Positions are left out.\<close>

datatype engine_error =
  NotFound | TypeMismatch | CardinalityError | UnexpectedToken | UnknownFieldName
| Truncated | MalformedVarint | ResourceExceeded int

text \<open>Modelled from the spec: \<open>resolve(typeName)\<close> of section 4.1 returns the
  MessageDescriptor or signals NotFound.\<close>

definition resolve :: "SchemaRepository \<Rightarrow> string \<Rightarrow> engine_error + MessageDescriptor" where
  "resolve repo typeName =
     (case find (\<lambda>d. md_name d = typeName) repo of None \<Rightarrow> Inl NotFound | Some d \<Rightarrow> Inr d)"

text \<open>Modelled from the spec: a descriptor addressed by its id (section 9); an id outside
  the repository gives a descriptor without fields.\<close>

definition descriptor_at :: "SchemaRepository \<Rightarrow> nat \<Rightarrow> MessageDescriptor" where
  "descriptor_at repo i =
     (if i < length repo then repo ! i else \<lparr>md_name = [], md_fields = []\<rparr>)"

text \<open>Modelled from the spec: the wire type is a function of the declared kind (section 3);
  the glossary names the four families: variable-length integer 0, 64-bit fixed 1,
  length-delimited 2, 32-bit fixed 5.\<close>

fun wire_type :: "kind \<Rightarrow> nat" where
  "wire_type KFixed64 = 1"
| "wire_type KSFixed64 = 1"
| "wire_type KDouble = 1"
| "wire_type KString = 2"
| "wire_type KBytes = 2"
| "wire_type (KMessage i) = 2"
| "wire_type KFixed32 = 5"
| "wire_type KSFixed32 = 5"
| "wire_type KFloat = 5"
| "wire_type k = 0"

text \<open>Modelled from the spec: the descriptor id of a nested-message kind (section 3).\<close>

fun nested_descriptor :: "kind \<Rightarrow> nat option" where
  "nested_descriptor (KMessage i) = Some i"
| "nested_descriptor k = None"

text \<open>Modelled from the spec: looking a field up by its number, unique within a message
  (section 3).\<close>

definition find_field :: "MessageDescriptor \<Rightarrow> nat \<Rightarrow> FieldDescriptor option" where
  "find_field desc n = find (\<lambda>fd. fd_number fd = n) (md_fields desc)"

text \<open>Modelled from the spec: looking a field up by the name the text format spells
  (section 4.4).\<close>

definition find_field_named :: "MessageDescriptor \<Rightarrow> string \<Rightarrow> FieldDescriptor option" where
  "find_field_named desc name = find (\<lambda>fd. fd_name fd = name) (md_fields desc)"

text \<open>Modelled from the spec: the range of an integer width (section 3, "integer
  widths").\<close>

definition in_range :: "int \<Rightarrow> int \<Rightarrow> int \<Rightarrow> bool" where
  "in_range lo hi i = (lo \<le> i \<and> i < hi)"

text \<open>Modelled from the spec: whether a value agrees with a descriptor's kind, the test
  behind TypeMismatch in section 4.2.\<close>

fun value_has_kind :: "kind \<Rightarrow> FieldValue \<Rightarrow> bool" where
  "value_has_kind k (VInt i) =
     (if k = KInt32 \<or> k = KSInt32 \<or> k = KSFixed32 then in_range (- (2 ^ 31)) (2 ^ 31) i
      else if k = KInt64 \<or> k = KSInt64 \<or> k = KSFixed64 then in_range (- (2 ^ 63)) (2 ^ 63) i
      else if k = KUInt32 \<or> k = KFixed32 then in_range 0 (2 ^ 32) i
      else if k = KUInt64 \<or> k = KFixed64 then in_range 0 (2 ^ 64) i
      else False)"
| "value_has_kind k (VBool b) = (k = KBool)"
| "value_has_kind k (VFloat w) = (k = KFloat)"
| "value_has_kind k (VDouble w) = (k = KDouble)"
| "value_has_kind k (VString s) = (k = KString)"
| "value_has_kind k (VBytes s) = (k = KBytes)"
| "value_has_kind k (VMessage m) = (nested_descriptor k \<noteq> None)"

text \<open>Modelled from the spec: \<open>getRepeated\<close> of section 4.2; an absent field has no
  values.\<close>

definition getRepeated :: "DynamicMessage \<Rightarrow> nat \<Rightarrow> FieldValue list" where
  "getRepeated m n = (case map_of (known m) n of None \<Rightarrow> [] | Some vs \<Rightarrow> vs)"

text \<open>Modelled from the spec: \<open>getField\<close> of section 4.2 reports absence distinctly from a
  present default value.\<close>

definition getField :: "DynamicMessage \<Rightarrow> nat \<Rightarrow> FieldValue option" where
  "getField m n = (case getRepeated m n of [] \<Rightarrow> None | v # vs \<Rightarrow> Some v)"

text \<open>Modelled from the spec: replacing the values stored under a field number, keeping
  the position of its first insertion (section 3, insertion order).\<close>

fun put_values ::
  "nat \<Rightarrow> FieldValue list \<Rightarrow> (nat \<times> FieldValue list) list \<Rightarrow> (nat \<times> FieldValue list) list" where
  "put_values n vs [] = [(n, vs)]"
| "put_values n vs (e # es) = (if fst e = n then (n, vs) # es else e # put_values n vs es)"

text \<open>Modelled from the spec: \<open>setField(number, value)\<close> of section 4.2 fails with
  TypeMismatch if the value kind disagrees with the descriptor and with CardinalityError on a
  repeated field.\<close>

definition setField ::
  "MessageDescriptor \<Rightarrow> nat \<Rightarrow> FieldValue \<Rightarrow> DynamicMessage \<Rightarrow> engine_error + DynamicMessage" where
  "setField desc n v m =
     (case find_field desc n of
        None \<Rightarrow> Inl NotFound
      | Some fd \<Rightarrow>
          if fd_cardinality fd = Repeated then Inl CardinalityError
          else if \<not> value_has_kind (fd_kind fd) v then Inl TypeMismatch
          else Inr (DynamicMessage (put_values n [v] (known m)) (unknown m)))"

text \<open>Modelled from the spec: \<open>appendRepeated(number, value)\<close> of section 4.2, with the
  checks of \<open>setField\<close> mirrored.\<close>

definition appendRepeated ::
  "MessageDescriptor \<Rightarrow> nat \<Rightarrow> FieldValue \<Rightarrow> DynamicMessage \<Rightarrow> engine_error + DynamicMessage" where
  "appendRepeated desc n v m =
     (case find_field desc n of
        None \<Rightarrow> Inl NotFound
      | Some fd \<Rightarrow>
          if fd_cardinality fd = Singular then Inl CardinalityError
          else if \<not> value_has_kind (fd_kind fd) v then Inl TypeMismatch
          else Inr (DynamicMessage (put_values n (getRepeated m n @ [v]) (known m)) (unknown m)))"

text \<open>Modelled from the spec: \<open>addUnknown(number, wireType, bytes)\<close> of section 4.2.\<close>

definition addUnknown :: "nat \<Rightarrow> nat \<Rightarrow> string \<Rightarrow> DynamicMessage \<Rightarrow> DynamicMessage" where
  "addUnknown n wt bytes m = DynamicMessage (known m) (unknown m @ [UnknownField n wt bytes])"

text \<open>Modelled from the spec: storing a parsed or decoded value through the store's own
  calls, by the field's cardinality (section 4.2: all mutation happens through them).\<close>

definition store_value ::
  "MessageDescriptor \<Rightarrow> FieldDescriptor \<Rightarrow> FieldValue \<Rightarrow> DynamicMessage
     \<Rightarrow> engine_error + DynamicMessage" where
  "store_value desc fd v m =
     (if fd_cardinality fd = Repeated then appendRepeated desc (fd_number fd) v m
      else setField desc (fd_number fd) v m)"

subsection \<open>Binary wire codec\<close>

text \<open>Modelled from the spec: the base-128 little-endian variable-length integer of section
  4.3, continuation bit set on all but the last byte, minimal length on encode.\<close>

function encode_varint :: "int \<Rightarrow> string" where
  "encode_varint n =
     (if n < 128 then [char_of n] else char_of (128 + n mod 128) # encode_varint (n div 128))"
  by pat_completeness auto
termination
  by (relation "measure nat") auto

declare encode_varint.simps [simp del]

text \<open>Modelled from the spec: the tag is the field number shifted left by three bits, or-ed with the wire type, as a variable-length
  integer (section 4.3).\<close>

definition encode_tag :: "nat \<Rightarrow> nat \<Rightarrow> string" where
  "encode_tag n wt = encode_varint (int n * 8 + int wt)"

text \<open>Modelled from the spec: the zigzag transform of the "sint" kinds (section 4.3; section
  8: -1 encodes to 1, +1 to 2).\<close>

definition zigzag :: "int \<Rightarrow> int" where
  "zigzag i = (if 0 \<le> i then 2 * i else - 2 * i - 1)"

text \<open>Modelled from the spec: fixed-width kinds as raw little-endian bytes (section 4.3).\<close>

fun little_endian :: "nat \<Rightarrow> int \<Rightarrow> string" where
  "little_endian 0 v = []"
| "little_endian (Suc n) v = char_of (v mod 256) # little_endian n (v div 256)"

text \<open>Modelled from the spec: the encoding of section 4.3. For each present field, in
  descriptor-declared order (repeated fields in insertion order), the tag and the payload:
  integer kinds as a variable-length integer (zigzag first for the sint kinds; a negative
  value of the other signed kinds in 64-bit two's complement, as the wire format the spec
  binds itself to has it), fixed-width kinds little-endian, length-delimited kinds with a
  length prefix, nested messages recursively; then every unknown field's tag and payload,
  in order.\<close>

fun encode_value :: "SchemaRepository \<Rightarrow> kind \<Rightarrow> FieldValue \<Rightarrow> string"
and encode_message :: "SchemaRepository \<Rightarrow> MessageDescriptor \<Rightarrow> DynamicMessage \<Rightarrow> string" where
  "encode_value repo k (VInt i) =
     (if k = KSInt32 \<or> k = KSInt64 then encode_varint (zigzag i)
      else if wire_type k = 5 then little_endian 4 (i mod 2 ^ 32)
      else if wire_type k = 1 then little_endian 8 (i mod 2 ^ 64)
      else encode_varint (i mod 2 ^ 64))"
| "encode_value repo k (VBool b) = encode_varint (if b then 1 else 0)"
| "encode_value repo k (VFloat w) = little_endian 4 (uint w)"
| "encode_value repo k (VDouble w) = little_endian 8 (uint w)"
| "encode_value repo k (VString s) = encode_varint (int (length s)) @ s"
| "encode_value repo k (VBytes s) = encode_varint (int (length s)) @ s"
| "encode_value repo k (VMessage m) =
     (case nested_descriptor k of
        Some i \<Rightarrow>
          (let payload = encode_message repo (descriptor_at repo i) m
           in encode_varint (int (length payload)) @ payload)
      | None \<Rightarrow> [])"
| "encode_message repo desc (DynamicMessage kn un) =
     concat (map (\<lambda>fd.
        concat (map (\<lambda>e.
          if fst e = fd_number fd
          then concat (map (\<lambda>v. encode_tag (fd_number fd) (wire_type (fd_kind fd))
                                  @ encode_value repo (fd_kind fd) v) (snd e))
          else []) kn)) (md_fields desc))
     @ concat (map (\<lambda>u. encode_tag (uf_number u) (uf_wire_type u) @ uf_payload u) un)"

text \<open>Modelled from the spec: \<open>encodeBinary\<close>, the public operation of section 2.\<close>

definition encodeBinary :: "SchemaRepository \<Rightarrow> MessageDescriptor \<Rightarrow> DynamicMessage \<Rightarrow> string" where
  "encodeBinary repo desc m = encode_message repo desc m"

text \<open>Modelled from the spec: reading a variable-length integer (section 4.3). Up to 10
  bytes are accepted, minimal or not; an eleventh byte is malformed; a buffer that ends
  inside the integer is truncated.\<close>

fun decode_varint_from :: "nat \<Rightarrow> string \<Rightarrow> engine_error + (int \<times> string)" where
  "decode_varint_from i [] = Inl Truncated"
| "decode_varint_from i (b # bs) =
     (if 10 \<le> i then Inl MalformedVarint
      else if of_char b < (128 :: int) then Inr (of_char b * 128 ^ i, bs)
      else (case decode_varint_from (Suc i) bs of
              Inl e \<Rightarrow> Inl e
            | Inr (hi, rest) \<Rightarrow> Inr ((of_char b - 128) * 128 ^ i + hi, rest)))"

text \<open>Modelled from the spec: the value of a variable-length integer, 64 bits wide (section
  4.3).\<close>

definition decode_varint :: "string \<Rightarrow> engine_error + (int \<times> string)" where
  "decode_varint buf =
     (case decode_varint_from 0 buf of
        Inl e \<Rightarrow> Inl e
      | Inr (v, rest) \<Rightarrow> Inr (v mod 2 ^ 64, rest))"

text \<open>Modelled from the spec: what a field's payload holds, by wire type (glossary).\<close>

datatype payload = PVarint int | PFixed int | PBytes string

text \<open>Modelled from the spec: the bytes of a length-delimited payload (section 4.3).\<close>

fun payload_bytes :: "payload \<Rightarrow> string" where
  "payload_bytes (PBytes s) = s"
| "payload_bytes p = []"

text \<open>Modelled from the spec: reading raw little-endian bytes (section 4.3).\<close>

definition from_little_endian :: "string \<Rightarrow> int" where
  "from_little_endian bs = foldr (\<lambda>b acc. of_char b + 256 * acc) bs 0"

text \<open>Modelled from the spec: consuming one payload per its wire type (section 4.3),
  returning its raw bytes, its content and the rest of the buffer. The declared length of a
  length-delimited field is checked against the size ceiling when it is read
  (ResourceExceeded, section 5), then against the bytes that remain (Truncated), before
  the payload is taken. A wire type outside the glossary's four is malformed.\<close>

definition split_payload ::
  "nat \<Rightarrow> nat \<Rightarrow> string \<Rightarrow> engine_error + (string \<times> payload \<times> string)" where
  "split_payload ceiling wt buf =
     (if wt = 0 then
        (case decode_varint buf of
           Inl e \<Rightarrow> Inl e
         | Inr (v, rest) \<Rightarrow> Inr (take (length buf - length rest) buf, PVarint v, rest))
      else if wt = 1 then
        (if length buf < 8 then Inl Truncated
         else Inr (take 8 buf, PFixed (from_little_endian (take 8 buf)), drop 8 buf))
      else if wt = 5 then
        (if length buf < 4 then Inl Truncated
         else Inr (take 4 buf, PFixed (from_little_endian (take 4 buf)), drop 4 buf))
      else if wt = 2 then
        (case decode_varint buf of
           Inl e \<Rightarrow> Inl e
         | Inr (len, rest) \<Rightarrow>
             if int ceiling < len then Inl (ResourceExceeded len)
             else if int (length rest) < len then Inl Truncated
             else Inr (take (length buf - length rest + nat len) buf, PBytes (take (nat len) rest),
                       drop (nat len) rest))
      else Inl MalformedVarint)"

text \<open>Modelled from the spec: reading an unsigned number of a given width as two's
  complement (the signed kinds of section 3).\<close>

definition signed :: "nat \<Rightarrow> int \<Rightarrow> int" where
  "signed w v = (let u = v mod 2 ^ w in if u < 2 ^ (w - 1) then u else u - 2 ^ w)"

text \<open>Modelled from the spec: the inverse of the zigzag transform (section 4.3).\<close>

definition unzigzag :: "int \<Rightarrow> int" where
  "unzigzag n = (if even n then n div 2 else - (n div 2) - 1)"

text \<open>Modelled from the spec: the value of a scalar kind read from a payload of its wire
  type (section 4.3).\<close>

fun scalar_value :: "kind \<Rightarrow> payload \<Rightarrow> FieldValue" where
  "scalar_value k (PVarint v) =
     (if k = KInt32 then VInt (signed 32 v)
      else if k = KInt64 then VInt (signed 64 v)
      else if k = KUInt32 then VInt (v mod 2 ^ 32)
      else if k = KSInt32 then VInt (unzigzag (v mod 2 ^ 32))
      else if k = KSInt64 then VInt (unzigzag v)
      else if k = KBool then VBool (v \<noteq> 0)
      else VInt v)"
| "scalar_value k (PFixed v) =
     (if k = KSFixed32 then VInt (signed 32 v)
      else if k = KSFixed64 then VInt (signed 64 v)
      else if k = KFloat then VFloat (word_of_int v)
      else if k = KDouble then VDouble (word_of_int v)
      else VInt v)"
| "scalar_value k (PBytes s) = (if k = KString then VString s else VBytes s)"

lemma decode_varint_from_shorter:
  "decode_varint_from i buf = Inr (v, rest) \<Longrightarrow> length rest < length buf"
proof (induction i buf arbitrary: v rule: decode_varint_from.induct)
  case (1 i)
  then show ?case by simp
next
  case (2 i b bs)
  show ?case
  proof (cases "10 \<le> i \<or> of_char b < (128 :: int)")
    case True
    with "2.prems" show ?thesis by (auto split: if_splits)
  next
    case False
    with "2.prems" obtain hi where "decode_varint_from (Suc i) bs = Inr (hi, rest)"
      by (auto split: sum.splits)
    with "2.IH" False have "length rest < length bs" by auto
    then show ?thesis by simp
  qed
qed

lemma decode_varint_shorter:
  "decode_varint buf = Inr (v, rest) \<Longrightarrow> length rest < length buf"
  unfolding decode_varint_def
  by (cases "decode_varint_from 0 buf") (auto dest: decode_varint_from_shorter)

lemma split_payload_shorter:
  assumes "split_payload ceiling wt buf = Inr (raw, p, rest)"
  shows "length rest \<le> length buf"
proof (cases "wt = 0 \<or> wt = 2")
  case True
  with assms obtain v r where d: "decode_varint buf = Inr (v, r)" and "length rest \<le> length r"
    by (auto simp: split_payload_def split: if_splits sum.splits)
  with decode_varint_shorter [OF d] show ?thesis by simp
next
  case False
  with assms show ?thesis by (auto simp: split_payload_def split: if_splits)
qed

lemma payload_bytes_shorter:
  assumes "split_payload ceiling wt buf = Inr (raw, p, rest)"
  shows "length (payload_bytes p) \<le> length buf"
proof (cases p)
  case (PBytes content)
  with assms have "wt = 2"
    by (auto simp: split_payload_def split: if_splits sum.splits)
  with assms PBytes obtain v r where d: "decode_varint buf = Inr (v, r)"
    and "length content \<le> length r"
    by (auto simp: split_payload_def split: if_splits sum.splits)
  with decode_varint_shorter [OF d] PBytes show ?thesis by simp
qed simp_all

lemma field_step_shorter:
  assumes "decode_varint buf = Inr (tag, buf1)"
    and "split_payload ceiling wt buf1 = Inr (raw, p, rest)"
  shows "length rest < length buf" and "length (payload_bytes p) < length buf"
  using decode_varint_shorter [OF assms(1)] split_payload_shorter [OF assms(2)]
    payload_bytes_shorter [OF assms(2)]
  by simp_all

text \<open>Modelled from the spec: the decoding of section 4.3. A tag is read until the buffer
  is exhausted. An unrecognized field number is stored as an UnknownField; so is a
  recognized number whose wire type disagrees with the schema's (keyed by the number seen);
  otherwise the value is stored under its field, a nested message being decoded from its
  payload first.\<close>

function decode_fields ::
  "SchemaRepository \<Rightarrow> nat \<Rightarrow> MessageDescriptor \<Rightarrow> string \<Rightarrow> DynamicMessage
     \<Rightarrow> engine_error + DynamicMessage" where
  "decode_fields repo ceiling desc buf m =
     (if buf = [] then Inr m
      else
        (case decode_varint buf of
           Inl e \<Rightarrow> Inl e
         | Inr (tag, buf1) \<Rightarrow>
             (case split_payload ceiling (nat (tag mod 8)) buf1 of
                Inl e \<Rightarrow> Inl e
              | Inr (raw, p, rest) \<Rightarrow>
                  (case find_field desc (nat (tag div 8)) of
                     None \<Rightarrow>
                       decode_fields repo ceiling desc rest
                         (addUnknown (nat (tag div 8)) (nat (tag mod 8)) raw m)
                   | Some fd \<Rightarrow>
                       if wire_type (fd_kind fd) \<noteq> nat (tag mod 8)
                       then decode_fields repo ceiling desc rest
                              (addUnknown (nat (tag div 8)) (nat (tag mod 8)) raw m)
                       else
                         (case nested_descriptor (fd_kind fd) of
                            Some i \<Rightarrow>
                              (case decode_fields repo ceiling (descriptor_at repo i)
                                      (payload_bytes p) (DynamicMessage [] []) of
                                 Inl e \<Rightarrow> Inl e
                               | Inr sub \<Rightarrow>
                                   (case store_value desc fd (VMessage sub) m of
                                      Inl e \<Rightarrow> Inl e
                                    | Inr m' \<Rightarrow> decode_fields repo ceiling desc rest m'))
                          | None \<Rightarrow>
                              (case store_value desc fd (scalar_value (fd_kind fd) p) m of
                                 Inl e \<Rightarrow> Inl e
                               | Inr m' \<Rightarrow> decode_fields repo ceiling desc rest m'))))))"
  by pat_completeness auto
termination
proof (relation "measure (\<lambda>(repo, ceiling, desc, buf, m). length buf)", goal_cases)
  case 1
  show ?case by simp
next
  case 2
  then show ?case by (clarsimp dest!: sym [of "(_, _)"]) (erule (1) field_step_shorter(1))
next
  case 3
  then show ?case by (clarsimp dest!: sym [of "(_, _)"]) (erule (1) field_step_shorter(1))
next
  case 4
  then show ?case by (clarsimp dest!: sym [of "(_, _)"]) (erule (1) field_step_shorter(1))
next
  case 5
  then show ?case by (clarsimp dest!: sym [of "(_, _)"]) (erule (1) field_step_shorter(2))
next
  case 6
  then show ?case by (clarsimp dest!: sym [of "(_, _)"]) (erule (1) field_step_shorter(1))
qed

declare decode_fields.simps [simp del]

text \<open>Modelled from the spec: \<open>decodeBinary\<close>, the public operation of section 2, with the
  configurable size ceiling of section 5.\<close>

definition decodeBinary ::
  "SchemaRepository \<Rightarrow> nat \<Rightarrow> MessageDescriptor \<Rightarrow> string \<Rightarrow> engine_error + DynamicMessage" where
  "decodeBinary repo ceiling desc buf = decode_fields repo ceiling desc buf (DynamicMessage [] [])"

subsection \<open>Text codec\<close>

text \<open>Modelled from the spec: the conversion between decimal literals and the bit patterns
  of float and double values. Section 4.4 leaves the syntax of a scalarLiteral open, and the
  conversion is floating-point arithmetic, so the text codec takes it as a parameter.\<close>

record literal_conv =
  float_of_text :: "string \<Rightarrow> 32 word option"
  double_of_text :: "string \<Rightarrow> 64 word option"
  text_of_float :: "32 word \<Rightarrow> string"
  text_of_double :: "64 word \<Rightarrow> string"

text \<open>Modelled from the spec: the tokens of the grammar of section 4.4: a bare word (a
  field name, a number, \<open>true\<close> or \<open>false\<close>), a double-quoted string with its escapes
  resolved, the colon and the two braces. \<open>TBad\<close> marks the place where no token can be
  read.\<close>

datatype token = TWord string | TString string | TColon | TLBrace | TRBrace | TBad

text \<open>Modelled from the spec: the states of the scanner for the grammar of section 4.4
  (between tokens, inside a word, inside a string, after a backslash, inside \<open>\xHH\<close>).\<close>

datatype lex_state =
  Idle | InWord string | InString string | InEscape string | InHex1 string | InHex2 string nat
| Stopped

text \<open>Modelled from the spec: a character between two given ones, by character code.\<close>

definition char_in :: "char \<Rightarrow> char \<Rightarrow> char \<Rightarrow> bool" where
  "char_in lo hi c = ((of_char lo :: nat) \<le> of_char c \<and> (of_char c :: nat) \<le> of_char hi)"

text \<open>Modelled from the spec: white space separates the tokens of section 4.4.\<close>

definition is_space :: "char \<Rightarrow> bool" where
  "is_space c = (c = CHR '' '' \<or> c = CHR 0x09 \<or> c = CHR 0x0A \<or> c = CHR 0x0D)"

text \<open>Modelled from the spec: a decimal digit of a scalarLiteral (section 4.4).\<close>

definition is_digit :: "char \<Rightarrow> bool" where
  "is_digit c = char_in CHR ''0'' CHR ''9'' c"

text \<open>Modelled from the spec: the characters of a fieldName or a bare scalarLiteral
  (section 4.4).\<close>

definition is_word_char :: "char \<Rightarrow> bool" where
  "is_word_char c =
     (is_digit c \<or> char_in CHR ''a'' CHR ''z'' c \<or> char_in CHR ''A'' CHR ''Z'' c
      \<or> c = CHR ''_'' \<or> c = CHR ''.'' \<or> c = CHR ''-'' \<or> c = CHR ''+'')"

text \<open>Modelled from the spec: a hexadecimal digit of the escape \<open>\xHH\<close> (section 4.4).\<close>

definition hex_digit :: "char \<Rightarrow> nat option" where
  "hex_digit c =
     (if is_digit c then Some (of_char c - 48)
      else if char_in CHR ''a'' CHR ''f'' c then Some (of_char c - 87)
      else if char_in CHR ''A'' CHR ''F'' c then Some (of_char c - 55)
      else None)"

text \<open>Modelled from the spec: what the first character of a token starts (section 4.4).\<close>

definition lex_start :: "char \<Rightarrow> lex_state \<times> token list" where
  "lex_start c =
     (if is_space c then (Idle, [])
      else if c = CHR '':'' then (Idle, [TColon])
      else if c = CHR ''{'' then (Idle, [TLBrace])
      else if c = CHR ''}'' then (Idle, [TRBrace])
      else if c = CHR 0x22 then (InString [], [])
      else if is_word_char c then (InWord [c], [])
      else (Stopped, [TBad]))"

text \<open>Modelled from the spec: the scanner for the grammar of section 4.4, with the escapes
  \<open>\n \t \" \\ \xHH\<close> of a quoted string. It stops at the first place where no token can be
  read, so that the parser fails there and not earlier.\<close>

fun lex :: "lex_state \<Rightarrow> string \<Rightarrow> token list" where
  "lex Idle [] = []"
| "lex (InWord w) [] = [TWord w]"
| "lex Stopped cs = []"
| "lex st [] = [TBad]"
| "lex Idle (c # cs) = snd (lex_start c) @ lex (fst (lex_start c)) cs"
| "lex (InWord w) (c # cs) =
     (if is_word_char c then lex (InWord (w @ [c])) cs
      else TWord w # snd (lex_start c) @ lex (fst (lex_start c)) cs)"
| "lex (InString s) (c # cs) =
     (if c = CHR 0x22 then TString s # lex Idle cs
      else if c = CHR 0x5C then lex (InEscape s) cs
      else lex (InString (s @ [c])) cs)"
| "lex (InEscape s) (c # cs) =
     (if c = CHR ''n'' then lex (InString (s @ [CHR 0x0A])) cs
      else if c = CHR ''t'' then lex (InString (s @ [CHR 0x09])) cs
      else if c = CHR 0x22 then lex (InString (s @ [CHR 0x22])) cs
      else if c = CHR 0x5C then lex (InString (s @ [CHR 0x5C])) cs
      else if c = CHR ''x'' then lex (InHex1 s) cs
      else [TBad])"
| "lex (InHex1 s) (c # cs) =
     (case hex_digit c of None \<Rightarrow> [TBad] | Some h \<Rightarrow> lex (InHex2 s h) cs)"
| "lex (InHex2 s h) (c # cs) =
     (case hex_digit c of
        None \<Rightarrow> [TBad]
      | Some l \<Rightarrow> lex (InString (s @ [char_of (16 * h + l)])) cs)"

text \<open>Modelled from the spec: the number a run of decimal digits writes (section 4.4).\<close>

definition digits_value :: "string \<Rightarrow> int" where
  "digits_value ds = foldl (\<lambda>acc d. 10 * acc + (of_char d - 48)) 0 ds"

text \<open>Modelled from the spec: an integer scalarLiteral, decimal digits with an optional
  minus sign (section 4.4).\<close>

definition parse_int :: "string \<Rightarrow> int option" where
  "parse_int w =
     (case w of
        [] \<Rightarrow> None
      | c # cs \<Rightarrow>
          if c = CHR ''-''
          then (if cs \<noteq> [] \<and> list_all is_digit cs then Some (- digits_value cs) else None)
          else if list_all is_digit w then Some (digits_value w)
          else None)"

text \<open>Modelled from the spec: the integer kinds of section 3.\<close>

definition is_integer_kind :: "kind \<Rightarrow> bool" where
  "is_integer_kind k = (k \<in> set [KInt32, KInt64, KUInt32, KUInt64, KSInt32, KSInt64,
                                 KFixed32, KFixed64, KSFixed32, KSFixed64])"

text \<open>Modelled from the spec: the value a scalarLiteral denotes for a field of a given kind
  (section 4.4): bare \<open>true\<close> and \<open>false\<close> for booleans, double-quoted strings for string
  and bytes; a literal of another shape is a TypeMismatch.\<close>

fun value_of_literal :: "literal_conv \<Rightarrow> kind \<Rightarrow> token \<Rightarrow> engine_error + FieldValue" where
  "value_of_literal cv k (TWord w) =
     (if is_integer_kind k then
        (case parse_int w of None \<Rightarrow> Inl TypeMismatch | Some i \<Rightarrow> Inr (VInt i))
      else if k = KBool then
        (if w = ''true'' then Inr (VBool True)
         else if w = ''false'' then Inr (VBool False)
         else Inl TypeMismatch)
      else if k = KFloat then
        (case float_of_text cv w of None \<Rightarrow> Inl TypeMismatch | Some x \<Rightarrow> Inr (VFloat x))
      else if k = KDouble then
        (case double_of_text cv w of None \<Rightarrow> Inl TypeMismatch | Some x \<Rightarrow> Inr (VDouble x))
      else Inl TypeMismatch)"
| "value_of_literal cv k (TString s) =
     (if k = KString then Inr (VString s)
      else if k = KBytes then Inr (VBytes s)
      else Inl TypeMismatch)"
| "value_of_literal cv k t = Inl UnexpectedToken"

text \<open>Modelled from the spec: a message whose block is open while a nested one is parsed:
  its descriptor, what it holds so far, and the field the nested message goes to.\<close>

type_synonym frame = "MessageDescriptor \<times> DynamicMessage \<times> FieldDescriptor"

text \<open>Modelled from the spec: \<open>parse(text)\<close> of section 4.4 over the tokens:
  \<open>fieldName ':' scalarLiteral\<close> for scalars, \<open>fieldName '{' ... '}'\<close> for nested messages
  (no colon), one entry per line of a repeated field. It fails at the first error; a field
  name the descriptor does not define is always an error.\<close>

fun parse_fields ::
  "SchemaRepository \<Rightarrow> literal_conv \<Rightarrow> frame list \<Rightarrow> MessageDescriptor \<Rightarrow> DynamicMessage
     \<Rightarrow> token list \<Rightarrow> engine_error + DynamicMessage" where
  "parse_fields repo cv stack desc m [] = (if stack = [] then Inr m else Inl UnexpectedToken)"
| "parse_fields repo cv stack desc m (TWord name # ts) =
     (case find_field_named desc name of
        None \<Rightarrow> Inl UnknownFieldName
      | Some fd \<Rightarrow>
          (case ts of
             TColon # lit # ts' \<Rightarrow>
               (case value_of_literal cv (fd_kind fd) lit of
                  Inl e \<Rightarrow> Inl e
                | Inr v \<Rightarrow>
                    (case store_value desc fd v m of
                       Inl e \<Rightarrow> Inl e
                     | Inr m' \<Rightarrow> parse_fields repo cv stack desc m' ts'))
           | TLBrace # ts' \<Rightarrow>
               (case nested_descriptor (fd_kind fd) of
                  None \<Rightarrow> Inl TypeMismatch
                | Some i \<Rightarrow>
                    parse_fields repo cv ((desc, m, fd) # stack) (descriptor_at repo i)
                      (DynamicMessage [] []) ts')
           | _ \<Rightarrow> Inl UnexpectedToken))"
| "parse_fields repo cv stack desc m (TRBrace # ts) =
     (case stack of
        [] \<Rightarrow> Inl UnexpectedToken
      | (pdesc, pm, fd) # stack' \<Rightarrow>
          (case store_value pdesc fd (VMessage m) pm of
             Inl e \<Rightarrow> Inl e
           | Inr pm' \<Rightarrow> parse_fields repo cv stack' pdesc pm' ts))"
| "parse_fields repo cv stack desc m (t # ts) = Inl UnexpectedToken"

text \<open>Modelled from the spec: \<open>parseText\<close>, the public operation of section 2.\<close>

definition parseText ::
  "SchemaRepository \<Rightarrow> literal_conv \<Rightarrow> MessageDescriptor \<Rightarrow> string
     \<Rightarrow> engine_error + DynamicMessage" where
  "parseText repo cv desc text =
     parse_fields repo cv [] desc (DynamicMessage [] []) (lex Idle text)"

text \<open>Modelled from the spec: a hexadecimal digit of a printed \<open>\xHH\<close> escape (section
  4.4).\<close>

definition hex_char :: "nat \<Rightarrow> char" where
  "hex_char d = (if d < 10 then char_of (48 + d) else char_of (87 + d))"

text \<open>Modelled from the spec: the escapes \<open>\n \t \" \\ \xHH\<close> of section 4.4, on
  printing.\<close>

definition escape_char :: "char \<Rightarrow> string" where
  "escape_char c =
     (if c = CHR 0x0A then [CHR 0x5C, CHR ''n'']
      else if c = CHR 0x09 then [CHR 0x5C, CHR ''t'']
      else if c = CHR 0x22 then [CHR 0x5C, CHR 0x22]
      else if c = CHR 0x5C then [CHR 0x5C, CHR 0x5C]
      else if \<not> char_in CHR '' '' CHR 0x7E c
      then [CHR 0x5C, CHR ''x'', hex_char (of_char c div 16), hex_char (of_char c mod 16)]
      else [c])"

text \<open>Modelled from the spec: a double-quoted string or bytes literal (section 4.4).\<close>

definition quote :: "string \<Rightarrow> string" where
  "quote s = CHR 0x22 # concat (map escape_char s) @ [CHR 0x22]"

text \<open>Modelled from the spec: \<open>print(message)\<close> of section 4.4 emits the fields in
  field-number order, one line per value, a field if and only if it is present, and
  recurses with indentation into nested messages.\<close>

fun print_value ::
  "SchemaRepository \<Rightarrow> literal_conv \<Rightarrow> nat \<Rightarrow> FieldDescriptor \<Rightarrow> FieldValue \<Rightarrow> string"
and print_message ::
  "SchemaRepository \<Rightarrow> literal_conv \<Rightarrow> nat \<Rightarrow> MessageDescriptor \<Rightarrow> DynamicMessage \<Rightarrow> string" where
  "print_value repo cv indent fd (VInt i) =
     replicate indent CHR '' '' @ fd_name fd @ '': '' @ show_int i @ endl"
| "print_value repo cv indent fd (VBool b) =
     replicate indent CHR '' '' @ fd_name fd @ '': '' @ (if b then ''true'' else ''false'') @ endl"
| "print_value repo cv indent fd (VFloat x) =
     replicate indent CHR '' '' @ fd_name fd @ '': '' @ text_of_float cv x @ endl"
| "print_value repo cv indent fd (VDouble x) =
     replicate indent CHR '' '' @ fd_name fd @ '': '' @ text_of_double cv x @ endl"
| "print_value repo cv indent fd (VString s) =
     replicate indent CHR '' '' @ fd_name fd @ '': '' @ quote s @ endl"
| "print_value repo cv indent fd (VBytes s) =
     replicate indent CHR '' '' @ fd_name fd @ '': '' @ quote s @ endl"
| "print_value repo cv indent fd (VMessage m) =
     replicate indent CHR '' '' @ fd_name fd @ '' {'' @ endl
     @ (case nested_descriptor (fd_kind fd) of
          Some i \<Rightarrow> print_message repo cv (indent + 2) (descriptor_at repo i) m
        | None \<Rightarrow> [])
     @ replicate indent CHR '' '' @ ''}'' @ endl"
| "print_message repo cv indent desc (DynamicMessage kn un) =
     concat (map (\<lambda>fd.
        concat (map (\<lambda>e.
          if fst e = fd_number fd
          then concat (map (\<lambda>v. print_value repo cv indent fd v) (snd e))
          else []) kn)) (sort_key fd_number (md_fields desc)))"

text \<open>Modelled from the spec: \<open>print\<close> at the top level, without indentation.\<close>

definition print ::
  "SchemaRepository \<Rightarrow> literal_conv \<Rightarrow> MessageDescriptor \<Rightarrow> DynamicMessage \<Rightarrow> string" where
  "print repo cv desc m = print_message repo cv 0 desc m"

subsection \<open>Equivalence checker\<close>

text \<open>Modelled from the spec: a NaN of the 32-bit format: all exponent bits set and a
  fraction that is not zero.\<close>

definition is_nan32 :: "32 word \<Rightarrow> bool" where
  "is_nan32 x = (x AND 0x7F800000 = 0x7F800000 \<and> x AND 0x007FFFFF \<noteq> 0)"

text \<open>Modelled from the spec: a NaN of the 64-bit format.\<close>

definition is_nan64 :: "64 word \<Rightarrow> bool" where
  "is_nan64 x =
     (x AND 0x7FF0000000000000 = 0x7FF0000000000000 \<and> x AND 0x000FFFFFFFFFFFFF \<noteq> 0)"

text \<open>Modelled from the spec: a diff record of section 4.5, a field path with each side's
  value; the unknown fields of a message are compared as one list.\<close>

datatype diff =
  FieldDiff "nat list" "FieldValue list" "FieldValue list"
| UnknownDiff "nat list" "UnknownField list" "UnknownField list"

text \<open>Modelled from the spec: the result of \<open>compare\<close> (section 4.5).\<close>

datatype comparison = Equal | Different "diff list"

text \<open>Modelled from the spec: the comparison of section 4.5. Scalars are equal iff their
  values are; floating-point values bit for bit, except that two NaN values are equal to
  each other. A field is equal iff both sides hold the same number of values (presence
  matches) and they are pairwise equal in order. Nested messages recurse. Unknown fields
  are equal iff they are identical in the same order.\<close>

fun diff_value :: "nat list \<Rightarrow> FieldValue \<Rightarrow> FieldValue \<Rightarrow> diff list"
and diff_values :: "nat list \<Rightarrow> FieldValue list \<Rightarrow> FieldValue list \<Rightarrow> diff list"
and diff_message :: "nat list \<Rightarrow> DynamicMessage \<Rightarrow> DynamicMessage \<Rightarrow> diff list" where
  "diff_value path (VFloat x) w =
     (if w = VFloat x \<or> (is_nan32 x \<and> (case w of VFloat y \<Rightarrow> is_nan32 y | _ \<Rightarrow> False)) then []
      else [FieldDiff path [VFloat x] [w]])"
| "diff_value path (VDouble x) w =
     (if w = VDouble x \<or> (is_nan64 x \<and> (case w of VDouble y \<Rightarrow> is_nan64 y | _ \<Rightarrow> False)) then []
      else [FieldDiff path [VDouble x] [w]])"
| "diff_value path (VMessage a) w =
     (case w of
        VMessage b \<Rightarrow> diff_message path a b
      | _ \<Rightarrow> [FieldDiff path [VMessage a] [w]])"
| "diff_value path v w = (if v = w then [] else [FieldDiff path [v] [w]])"
| "diff_values path [] ws = []"
| "diff_values path (v # vs) [] = []"
| "diff_values path (v # vs) (w # ws) = diff_value path v w @ diff_values path vs ws"
| "diff_message path (DynamicMessage kn un) b =
     concat (map (\<lambda>e.
        if length (snd e) \<noteq> length (getRepeated b (fst e))
        then [FieldDiff (path @ [fst e]) (snd e) (getRepeated b (fst e))]
        else diff_values (path @ [fst e]) (snd e) (getRepeated b (fst e))) kn)
     @ concat (map (\<lambda>e.
        if map_of kn (fst e) = None \<and> snd e \<noteq> []
        then [FieldDiff (path @ [fst e]) [] (snd e)] else []) (known b))
     @ (if un = unknown b then [] else [UnknownDiff path un (unknown b)])"

text \<open>Modelled from the spec: \<open>compare(a, b)\<close> of section 4.5 returns Equal or Different
  with the list of diffs.\<close>

definition compare :: "DynamicMessage \<Rightarrow> DynamicMessage \<Rightarrow> comparison" where
  "compare a b = (case diff_message [] a b of [] \<Rightarrow> Equal | ds \<Rightarrow> Different ds)"

subsection \<open>The engine behind the library's interface\<close>

text \<open>Modelled from the spec: the engine in the place of the protobuf library. A message
  carries its descriptor, as a protobuf message does. \<open>describe\<close> gives the descriptor
  behind what the tool uses as one (the descriptor itself in main.cpp, a generated class in
  the compiled tools), \<open>lookup\<close> finds it by name. The schema file is not read: the
  importer is the repository.\<close>

definition engine ::
  "SchemaRepository \<Rightarrow> literal_conv \<Rightarrow> nat \<Rightarrow> ('d \<Rightarrow> MessageDescriptor option)
     \<Rightarrow> (string \<Rightarrow> 'd option)
     \<Rightarrow> (SchemaRepository, 'd, MessageDescriptor \<times> DynamicMessage) protobuf" where
  "engine repo cv ceiling describe lookup =
     \<lparr>Import = (\<lambda>proto_path proto_file. ([], Some repo)),
      FindMessageTypeByName = (\<lambda>importer name. lookup name),
      message_type_names = map md_name,
      GetPrototype = (\<lambda>d. describe d \<noteq> None),
      TextFormat_ParseFromString = (\<lambda>d text.
        case describe d of
          None \<Rightarrow> None
        | Some desc \<Rightarrow>
            (case parseText repo cv desc text of Inl e \<Rightarrow> None | Inr m \<Rightarrow> Some (desc, m))),
      SerializeToString = (\<lambda>dm. Some (encodeBinary repo (fst dm) (snd dm))),
      ParseFromString = (\<lambda>d buf.
        case describe d of
          None \<Rightarrow> None
        | Some desc \<Rightarrow>
            (case decodeBinary repo ceiling desc buf of
               Inl e \<Rightarrow> None
             | Inr m \<Rightarrow> Some (desc, m))),
      TextFormat_PrintToString = (\<lambda>dm. Some (print repo cv (fst dm) (snd dm))),
      MessageDifferencer_Equals = (\<lambda>a b. compare (snd a) (snd b) = Equal),
      DebugString = (\<lambda>dm. print repo cv (fst dm) (snd dm))\<rparr>"

text \<open>Modelled from the spec: the schema of the end-to-end scenario of section 8, one field
  \<open>count\<close>, number 1, of the signed 32-bit varint kind.\<close>

definition count_schema :: MessageDescriptor where
  "count_schema =
     \<lparr>md_name = ''Counter'',
      md_fields = [\<lparr>fd_number = 1, fd_name = ''count'', fd_cardinality = Singular,
                    fd_kind = KInt32\<rparr>]\<rparr>"

text \<open>Modelled from the spec: a text codec for schemas without floating-point fields: it
  reads no float literal.\<close>

definition no_float_text :: literal_conv where
  "no_float_text =
     \<lparr>float_of_text = (\<lambda>s. None), double_of_text = (\<lambda>s. None),
      text_of_float = (\<lambda>x. []), text_of_double = (\<lambda>x. [])\<rparr>"

text \<open>Modelled from the spec: the engine on the scenario's schema, for main.cpp (the
  descriptor is found by name) ...\<close>

definition count_engine ::
  "(SchemaRepository, MessageDescriptor, MessageDescriptor \<times> DynamicMessage) protobuf" where
  "count_engine =
     engine [count_schema] no_float_text kMaxInputSize Some
       (\<lambda>name. case resolve [count_schema] name of Inl e \<Rightarrow> None | Inr d \<Rightarrow> Some d)"

text \<open>Modelled from the spec: ... for the compiled harness (both generated classes stand
  for the scenario's schema) ...\<close>

definition count_engine_compiled ::
  "(SchemaRepository, fuzztest, MessageDescriptor \<times> DynamicMessage) protobuf" where
  "count_engine_compiled =
     engine [count_schema] no_float_text kMaxInputSize (\<lambda>T. Some count_schema)
       (\<lambda>name. None)"

text \<open>Modelled from the spec: ... and for the batch driver, where a message class is known
  by its name; every conformance message stands for the scenario's schema.\<close>

definition count_engine_named ::
  "(SchemaRepository, string, MessageDescriptor \<times> DynamicMessage) protobuf" where
  "count_engine_named =
     engine [count_schema] no_float_text kMaxInputSize (\<lambda>T. Some count_schema) Some"

text \<open>
  A file system in memory to run the batch driver on: the files are an association list
  from paths to contents, every directory exists, and a file can be created anywhere
  but under the paths listed as read-only.
\<close>

record memfs =
  mem_files :: "(string \<times> string) list"
  mem_readonly :: "string list"

definition mem_os :: "memfs os" where
  "mem_os =
     \<lparr>ifstream_read = (\<lambda>w path. map_of (mem_files w) path),
      stat_ok = (\<lambda>w path. map_of (mem_files w) path \<noteq> None),
      mkdir = (\<lambda>w path. w),
      ofstream_write = (\<lambda>w path data.
        if path \<in> set (mem_readonly w) then None
        else Some (w\<lparr>mem_files := (path, data) # mem_files w\<rparr>))\<rparr>"

section \<open>Notions in which the properties are stated\<close>

text \<open>
  Two readings of a stream, to state what \<open>ReadAllFromFd\<close> does: the bytes it delivers
  before its first call that returns no data, and the error of that call if it failed.
\<close>

fun delivered :: "read_result list \<Rightarrow> string" where
  "delivered [] = []"
| "delivered (ReadError e # fd) = []"
| "delivered (Data buffer # fd) = (if buffer = [] then [] else buffer @ delivered fd)"

fun read_error :: "read_result list \<Rightarrow> string option" where
  "read_error [] = None"
| "read_error (ReadError e # fd) = Some e"
| "read_error (Data buffer # fd) = (if buffer = [] then None else read_error fd)"

text \<open>The message \<open>ReadAllFromFd\<close> prints before \<open>exit(1)\<close> on an oversized input.\<close>

definition too_large_message :: string where
  "too_large_message =
     ''Error: input exceeds maximum size of '' @ show_nat kMaxInputSize @ '' bytes'' @ endl"

text \<open>
  The test cases a \<open>tests.txt\<close> declares: its lines that are neither empty nor comments and
  that split at single spaces into exactly two parts, the case name and the message type.
\<close>

definition is_test_case :: "string \<Rightarrow> bool" where
  "is_test_case line =
     (line \<noteq> [] \<and> hd line \<noteq> CHR ''#'' \<and> length (StrSplit line CHR '' '') = 2)"

definition test_cases :: "string list \<Rightarrow> (string \<times> string) list" where
  "test_cases lines =
     map (\<lambda>line. (StrSplit line CHR '' '' ! 0, StrSplit line CHR '' '' ! 1))
       (filter is_test_case lines)"

text \<open>The files a run has written, given the environments before and after it.\<close>

definition new_files :: "'w env \<Rightarrow> 'w env \<Rightarrow> (string \<times> string) list" where
  "new_files e e' = drop (length (written e)) (written e')"

text \<open>The four categories \<open>main\<close> processes, and the input directory it uses.\<close>

definition categories :: "string list" where
  "categories = [''scalars'', ''repeated'', ''nested'', ''edge_cases'']"

definition input_dir_of :: "string \<Rightarrow> string \<Rightarrow> string" where
  "input_dir_of FLAGS_output_dir FLAGS_input_dir =
     (if FLAGS_input_dir = [] then FLAGS_output_dir else FLAGS_input_dir)"

text \<open>
  What becomes of one test case, to state what the loop of \<open>ProcessCategory\<close> does with the
  cases of a category: its artifact is generated (the binary path and the binary), or the
  case fails, for one of five reasons.
\<close>

datatype verdict =
  Generated string string | UnknownType | MissingInput | ParseFailure | SerializeFailure
| WriteFailure

fun is_generated :: "verdict \<Rightarrow> bool" where
  "is_generated (Generated path binary) = True"
| "is_generated v = False"

fun artifact :: "verdict \<Rightarrow> (string \<times> string) list" where
  "artifact (Generated path binary) = [(path, binary)]"
| "artifact v = []"

text \<open>
  The claim's account of one test case \<open>(caseName, messageTypeName)\<close>, over the calls of
  the library and of the file system alone: the verdict of the case and the file system
  it leaves. A message type the driver does not know fails; so does an input that is
  neither readable nor there, a text the parser rejects, a message that does not
  serialize, and an output file that cannot be created (its directories have been made by
  then). Otherwise the binary is written to the case's binary path.
\<close>

definition case_verdict ::
  "'w os \<Rightarrow> ('p, string, 'm) protobuf \<Rightarrow> string \<Rightarrow> string \<Rightarrow> string \<Rightarrow> 'w
     \<Rightarrow> string \<times> string \<Rightarrow> verdict \<times> 'w" where
  "case_verdict os pb input_dir output_dir category w c =
     (let textproto_path = textproto_path_of input_dir category (fst c);
          bin_path = bin_path_of output_dir category (fst c);
          content = (case ifstream_read os w textproto_path of None \<Rightarrow> [] | Some s \<Rightarrow> s)
      in if snd c \<notin> set conformance_messages then (UnknownType, w)
         else if content = [] \<and> \<not> stat_ok os w textproto_path then (MissingInput, w)
         else (case TextFormat_ParseFromString pb (snd c) content of
                 None \<Rightarrow> (ParseFailure, w)
               | Some message \<Rightarrow>
                   (case SerializeToString pb message of
                      None \<Rightarrow> (SerializeFailure, w)
                    | Some binary \<Rightarrow>
                        (case ofstream_write os (MkdirP os (DirName bin_path) w) bin_path binary of
                           None \<Rightarrow> (WriteFailure, MkdirP os (DirName bin_path) w)
                         | Some w' \<Rightarrow> (Generated bin_path binary, w')))))"

text \<open>The test cases of a category one after the other, each on the file system the
  one before it left: their verdicts in order, and the file system at the end.\<close>

fun run_cases ::
  "'w os \<Rightarrow> ('p, string, 'm) protobuf \<Rightarrow> string \<Rightarrow> string \<Rightarrow> string \<Rightarrow> 'w
     \<Rightarrow> (string \<times> string) list \<Rightarrow> verdict list \<times> 'w" where
  "run_cases os pb input_dir output_dir category w [] = ([], w)"
| "run_cases os pb input_dir output_dir category w (c # cs) =
     (case case_verdict os pb input_dir output_dir category w c of
        (v, w1) \<Rightarrow>
          (case run_cases os pb input_dir output_dir category w1 cs of
             (vs, w2) \<Rightarrow> (v # vs, w2)))"

text \<open>Modelled from the spec: the invariants of a MessageDescriptor (section 3): field
  numbers are unique within a message; and they are small enough for the tag, the number
  shifted left by three bits, to fit the 64 bits of a variable-length integer.\<close>

definition valid_descriptor :: "MessageDescriptor \<Rightarrow> bool" where
  "valid_descriptor desc =
     (distinct (map fd_number (md_fields desc))
      \<and> list_all (\<lambda>fd. fd_number fd < 2 ^ 61) (md_fields desc))"

text \<open>Modelled from the spec: a repository all of whose descriptors keep the invariants,
  with the descriptor a message is read against.\<close>

definition valid_schema :: "SchemaRepository \<Rightarrow> MessageDescriptor \<Rightarrow> bool" where
  "valid_schema repo desc = (valid_descriptor desc \<and> list_all valid_descriptor repo)"

text \<open>Modelled from the spec: the invariants of a DynamicMessage built against a descriptor
  (section 3): every field it holds is one the descriptor defines, a singular field holds
  at most one value, every value has the kind of its field, a nested message keeps the
  invariants against the descriptor of its field; and, as after \<open>parseText\<close>, there are no
  unknown fields.\<close>

fun wf_value :: "SchemaRepository \<Rightarrow> kind \<Rightarrow> FieldValue \<Rightarrow> bool"
and wf_message :: "SchemaRepository \<Rightarrow> MessageDescriptor \<Rightarrow> DynamicMessage \<Rightarrow> bool" where
  "wf_value repo k (VMessage m) =
     (case nested_descriptor k of
        None \<Rightarrow> False
      | Some i \<Rightarrow> wf_message repo (descriptor_at repo i) m)"
| "wf_value repo k v = value_has_kind k v"
| "wf_message repo desc (DynamicMessage kn un) =
     (un = [] \<and> distinct (map fst kn)
      \<and> list_all (\<lambda>e.
           case find_field desc (fst e) of
             None \<Rightarrow> False
           | Some fd \<Rightarrow>
               (fd_cardinality fd = Repeated \<or> length (snd e) \<le> 1)
               \<and> list_all (wf_value repo (fd_kind fd)) (snd e)) kn)"

text \<open>Modelled from the spec: the message after a value has been stored under a field, by
  \<open>setField\<close> or \<open>appendRepeated\<close> according to the field's cardinality (section 4.2).\<close>

definition stored :: "FieldDescriptor \<Rightarrow> FieldValue \<Rightarrow> DynamicMessage \<Rightarrow> DynamicMessage" where
  "stored fd v m =
     DynamicMessage
       (put_values (fd_number fd)
          (if fd_cardinality fd = Repeated then getRepeated m (fd_number fd) @ [v] else [v])
          (known m))
       (unknown m)"

text \<open>Modelled from the spec: the invariants of the messages whose blocks are open while
  the text parser reads a nested one (section 4.4): each keeps the invariants of a
  DynamicMessage, and the block being read belongs to a nested-message field of the
  message around it.\<close>

fun frames_ok :: "SchemaRepository \<Rightarrow> MessageDescriptor \<Rightarrow> frame list \<Rightarrow> bool" where
  "frames_ok repo desc [] = True"
| "frames_ok repo desc ((pdesc, pm, fd) # stack) =
     (valid_descriptor pdesc \<and> wf_message repo pdesc pm \<and> fd \<in> set (md_fields pdesc)
      \<and> nested_descriptor (fd_kind fd) \<noteq> None
      \<and> desc = descriptor_at repo (the (nested_descriptor (fd_kind fd)))
      \<and> frames_ok repo pdesc stack)"

text \<open>Modelled from the spec: the descriptor of the outermost message of a text, seen from
  inside its nested blocks.\<close>

fun root_descriptor :: "MessageDescriptor \<Rightarrow> frame list \<Rightarrow> MessageDescriptor" where
  "root_descriptor desc [] = desc"
| "root_descriptor desc ((pdesc, pm, fd) # stack) = root_descriptor pdesc stack"

section \<open>Concrete inputs\<close>

text \<open>
  An input of 25601 reads of 4096 spaces each: 104861696 bytes, 4096 more than the ceiling.
\<close>

definition big_input :: "read_result list" where
  "big_input = replicate 25601 (Data (replicate 4096 CHR '' ''))"

text \<open>An environment over the file system in memory, with the given files.\<close>

definition env_of :: "(string \<times> string) list \<Rightarrow> memfs env" where
  "env_of files =
     \<lparr>world = \<lparr>mem_files = files, mem_readonly = []\<rparr>, cout = [], cerr = [], written = []\<rparr>"

text \<open>Flags naming the scenario's message.\<close>

definition sample_flags :: flags where
  "sample_flags =
     \<lparr>FLAGS_mode = ''encode'', FLAGS_proto = ''counter.proto'', FLAGS_message = ''Counter'',
      FLAGS_proto_path = ''.''\<rparr>"

text \<open>
  A category with a comment, four test cases (one of an unknown type, one whose file is
  missing, one whose file is empty) and a malformed line, on the file system in memory and
  the engine of the specification.
\<close>

definition sample_tests :: string where
  "sample_tests =
     ''# cases'' @ endl @ ''a Int32Value'' @ endl @ ''b Bogus'' @ endl @ ''bad line here'' @ endl
     @ ''c Int32Value'' @ endl @ ''d Int32Value'' @ endl"

definition sample_files :: "(string \<times> string) list" where
  "sample_files =
     [(''in/scalars/tests.txt'', sample_tests),
      (''in/scalars/a.textproto'', ''count: 300''),
      (''in/scalars/c.textproto'', [])]"

text \<open>Modelled from the spec: a schema with one string field \<open>body\<close>, number 1, and the
  text that sets it to \<open>abc\<close>.\<close>

definition note_schema :: MessageDescriptor where
  "note_schema =
     \<lparr>md_name = ''Note'',
      md_fields = [\<lparr>fd_number = 1, fd_name = ''body'', fd_cardinality = Singular,
                    fd_kind = KString\<rparr>]\<rparr>"

definition note_text :: string where
  "note_text = ''body: '' @ [CHR 0x22] @ ''abc'' @ [CHR 0x22]"

text \<open>Modelled from the spec: a self-referential schema (section 3) with a singular integer,
  a singular nested message of its own type and a repeated string, and a text that names
  the fields out of their declared order, with a negative number.\<close>

definition node_schema :: MessageDescriptor where
  "node_schema =
     \<lparr>md_name = ''Node'',
      md_fields =
        [\<lparr>fd_number = 1, fd_name = ''id'', fd_cardinality = Singular, fd_kind = KInt32\<rparr>,
         \<lparr>fd_number = 2, fd_name = ''child'', fd_cardinality = Singular, fd_kind = KMessage 0\<rparr>,
         \<lparr>fd_number = 3, fd_name = ''tags'', fd_cardinality = Repeated, fd_kind = KString\<rparr>]\<rparr>"

definition node_text :: string where
  "node_text =
     ''tags: '' @ [CHR 0x22] @ ''z'' @ [CHR 0x22] @ '' child { id: -2 tags: '' @ [CHR 0x22] @ ''x''
     @ [CHR 0x22] @ '' tags: '' @ [CHR 0x22] @ ''y'' @ [CHR 0x22] @ '' } id: 1''"

text \<open>Modelled from the spec: a schema with a repeated 64-bit fixed-width field \<open>a\<close> and a
  nested message \<open>c\<close> of its own type.\<close>

definition bulk_schema :: MessageDescriptor where
  "bulk_schema =
     \<lparr>md_name = ''Bulk'',
      md_fields =
        [\<lparr>fd_number = 1, fd_name = ''a'', fd_cardinality = Repeated, fd_kind = KFixed64\<rparr>,
         \<lparr>fd_number = 2, fd_name = ''c'', fd_cardinality = Singular, fd_kind = KMessage 0\<rparr>]\<rparr>"

text \<open>Modelled from the spec: the text of a message whose nested message \<open>c\<close> holds
  \<open>n\<close> entries of the repeated field \<open>a\<close>, each four characters long, and the message the
  text parser makes of the entries.\<close>

definition bulk_text :: "nat \<Rightarrow> string" where
  "bulk_text n = ''c{'' @ concat (replicate n ''a:1 '') @ ''}''"

definition bulk_message :: "nat \<Rightarrow> DynamicMessage" where
  "bulk_message n = DynamicMessage (if n = 0 then [] else [(1, replicate n (VInt 1))]) []"

text \<open>Modelled from the spec: such a text of 11650845 entries: 46603383 characters,
  which encode to a nested message of 104857605 bytes.\<close>

definition bulk_input :: string where
  "bulk_input = bulk_text 11650845"

text \<open>
  A library with a state, to run the operations against: its two parsers fail the first
  time one of them is called and answer as the given library does from then on; the state
  counts their calls.
\<close>

definition flaky :: "('p, 'd, 'm) protobuf \<Rightarrow> (nat, 'd, 'm) library" where
  "flaky pb =
     (stateless pb)
       \<lparr>call_TextFormat_ParseFromString := (\<lambda>d input n.
          (if n = 0 then None else TextFormat_ParseFromString pb d input, Suc n)),
        call_ParseFromString := (\<lambda>d input n.
          (if n = 0 then None else ParseFromString pb d input, Suc n))\<rparr>"

text \<open>
  A second category: a test case whose name comes twice, one of an unknown type, one whose
  file is empty, one whose text names an undefined field, one whose output file cannot be
  created, one whose file is missing, a comment and a malformed line.
\<close>

definition mixed_tests :: string where
  "mixed_tests =
     ''# cases'' @ endl @ ''a Int32Value'' @ endl @ ''b Bogus'' @ endl @ ''bad line here'' @ endl
     @ ''a Int32Value'' @ endl @ ''c Int32Value'' @ endl @ ''p Int32Value'' @ endl
     @ ''r Int32Value'' @ endl @ ''d Int32Value'' @ endl"

definition mixed_files :: "(string \<times> string) list" where
  "mixed_files =
     [(''in/scalars/tests.txt'', mixed_tests),
      (''in/scalars/a.textproto'', ''count: 300''),
      (''in/scalars/c.textproto'', []),
      (''in/scalars/p.textproto'', ''cnt: 1''),
      (''in/scalars/r.textproto'', ''count: 300'')]"

definition mixed_env :: "memfs env" where
  "mixed_env =
     \<lparr>world = \<lparr>mem_files = mixed_files, mem_readonly = [''out/scalars/r.bin'']\<rparr>,
      cout = [], cerr = [], written = []\<rparr>"

section \<open>Reading standard input\<close>

text \<open>
  How the loop ends depends only on what the stream delivers: it stops with \<open>TooLarge\<close> exactly when more
  than \<open>kMaxInputSize\<close> bytes are delivered.
\<close>

lemma loop_status:
  "length result \<le> kMaxInputSize \<Longrightarrow>
   fst (ReadAllFromFd_loop result fd) =
     (if kMaxInputSize < length result + length (delivered fd) then TooLarge
      else case read_error fd of Some e \<Rightarrow> ReadFailed e | None \<Rightarrow> Complete)"
proof (induction result fd rule: ReadAllFromFd_loop.induct)
  case (1 result)
  then show ?case by simp
next
  case (2 result e fd)
  then show ?case by simp
next
  case (3 result buffer fd)
  show ?case
  proof (cases "buffer = [] \<or> kMaxInputSize < length (result @ buffer)")
    case True
    with "3.prems" show ?thesis by auto
  next
    case False
    then have "length (result @ buffer) \<le> kMaxInputSize" by simp
    with "3.IH" False show ?thesis by (simp add: add.assoc)
  qed
qed

lemma loop_complete:
  "fst (ReadAllFromFd_loop result fd) = Complete \<Longrightarrow>
   snd (ReadAllFromFd_loop result fd) = result @ delivered fd"
  by (induction result fd rule: ReadAllFromFd_loop.induct) (auto split: if_splits)

lemma loop_bound:
  "length result \<le> kMaxInputSize \<Longrightarrow>
   (\<forall>c. Data c \<in> set fd \<longrightarrow> length c \<le> kReadBufferSize) \<Longrightarrow>
   length (snd (ReadAllFromFd_loop result fd)) \<le> kMaxInputSize + kReadBufferSize"
proof (induction result fd rule: ReadAllFromFd_loop.induct)
  case (1 result)
  then show ?case by simp
next
  case (2 result e fd)
  then show ?case by simp
next
  case (3 result buffer fd)
  from "3.prems" have c: "length buffer \<le> kReadBufferSize" by simp
  show ?case
  proof (cases "buffer = [] \<or> kMaxInputSize < length (result @ buffer)")
    case True
    with "3.prems"(1) c show ?thesis by auto
  next
    case False
    then have "length (result @ buffer) \<le> kMaxInputSize" by simp
    with "3.IH" "3.prems"(2) False show ?thesis by simp
  qed
qed

lemma ReadAllFromFd_eq:
  "ReadAllFromFd fd =
     (if kMaxInputSize < length (delivered fd)
      then Exit 1 (''Error: input exceeds maximum size of '' @ show_nat kMaxInputSize
                   @ '' bytes'' @ endl)
      else case read_error fd of
             Some e \<Rightarrow> Exit 1 (''Error reading from file descriptor: '' @ e @ endl)
           | None \<Rightarrow> Return (delivered fd))"
proof -
  obtain st buf where r: "ReadAllFromFd_loop [] fd = (st, buf)"
    by (cases "ReadAllFromFd_loop [] fd")
  have s: "st = (if kMaxInputSize < length (delivered fd) then TooLarge
      else case read_error fd of Some e \<Rightarrow> ReadFailed e | None \<Rightarrow> Complete)"
    using loop_status [of "[]" fd] r by simp
  have c: "st = Complete \<Longrightarrow> buf = delivered fd"
    using loop_complete [of "[]" fd] r by simp
  show ?thesis
    using s c by (auto simp: ReadAllFromFd_def r split: option.splits)
qed


lemma ReadAllFromFd_too_large:
  "kMaxInputSize < length (delivered fd) \<Longrightarrow> ReadAllFromFd fd = Exit 1 too_large_message"
  by (simp add: ReadAllFromFd_eq too_large_message_def)

lemma ReadAllFromFd_Return:
  "ReadAllFromFd fd = Return text \<Longrightarrow>
     text = delivered fd \<and> length text \<le> kMaxInputSize \<and> read_error fd = None"
  by (auto simp: ReadAllFromFd_eq split: if_splits option.splits)

text \<open>
  Claim C4, as the code has it. \<open>ReadAllFromFd\<close> appends each chunk to the buffer and
  compares the size with \<open>kMaxInputSize\<close> afterwards. So, on a stream whose reads return at
  most \<open>kReadBufferSize\<close> bytes each, the buffer never holds more than \<open>kMaxInputSize +
  kReadBufferSize\<close> bytes; whenever more than \<open>kMaxInputSize\<close> bytes are delivered, the loop
  stops there, the process exits with code 1 after the size message, and every operation
  of both harnesses ends with that exit code, that message and an empty standard output;
  and an input that is returned to the caller is at most \<open>kMaxInputSize\<close> bytes long. The
  harness reads no declared length: the ceiling bounds what has been accumulated.
\<close>

theorem C4_size_ceiling:
  "((\<forall>c. Data c \<in> set fd \<longrightarrow> length c \<le> kReadBufferSize) \<longrightarrow>
      length (snd (ReadAllFromFd_loop [] fd)) \<le> kMaxInputSize + kReadBufferSize)
   \<and> (kMaxInputSize < length (delivered fd) \<longrightarrow>
        fst (ReadAllFromFd_loop [] fd) = TooLarge
        \<and> ReadAllFromFd fd = Exit 1 too_large_message
        \<and> Encode pb d fd = \<lparr>exit_code = 1, stdout = [], stderr = too_large_message\<rparr>
        \<and> Decode pb d fd = \<lparr>exit_code = 1, stdout = [], stderr = too_large_message\<rparr>
        \<and> Roundtrip pb d fd = \<lparr>exit_code = 1, stdout = [], stderr = too_large_message\<rparr>
        \<and> Encode_T pb d fd = \<lparr>exit_code = 1, stdout = [], stderr = too_large_message\<rparr>
        \<and> Decode_T pb d fd = \<lparr>exit_code = 1, stdout = [], stderr = too_large_message\<rparr>
        \<and> Roundtrip_T pb d fd = \<lparr>exit_code = 1, stdout = [], stderr = too_large_message\<rparr>)
   \<and> (\<forall>input. ReadAllFromFd fd = Return input \<longrightarrow> length input \<le> kMaxInputSize)"
proof (intro conjI impI allI)
  assume "\<forall>c. Data c \<in> set fd \<longrightarrow> length c \<le> kReadBufferSize"
  then show "length (snd (ReadAllFromFd_loop [] fd)) \<le> kMaxInputSize + kReadBufferSize"
    using loop_bound [of "[]" fd] by simp
next
  assume big: "kMaxInputSize < length (delivered fd)"
  then show "fst (ReadAllFromFd_loop [] fd) = TooLarge"
    using loop_status [of "[]" fd] by simp
  from big have r: "ReadAllFromFd fd = Exit 1 too_large_message"
    by (rule ReadAllFromFd_too_large)
  then show "ReadAllFromFd fd = Exit 1 too_large_message" .
  from r show "Encode pb d fd = \<lparr>exit_code = 1, stdout = [], stderr = too_large_message\<rparr>"
    by (simp add: Encode_def)
  from r show "Decode pb d fd = \<lparr>exit_code = 1, stdout = [], stderr = too_large_message\<rparr>"
    by (simp add: Decode_def)
  from r show "Roundtrip pb d fd = \<lparr>exit_code = 1, stdout = [], stderr = too_large_message\<rparr>"
    by (simp add: Roundtrip_def)
  from r show "Encode_T pb d fd = \<lparr>exit_code = 1, stdout = [], stderr = too_large_message\<rparr>"
    by (simp add: Encode_T_def)
  from r show "Decode_T pb d fd = \<lparr>exit_code = 1, stdout = [], stderr = too_large_message\<rparr>"
    by (simp add: Decode_T_def)
  from r show "Roundtrip_T pb d fd = \<lparr>exit_code = 1, stdout = [], stderr = too_large_message\<rparr>"
    by (simp add: Roundtrip_T_def)
next
  fix input
  assume "ReadAllFromFd fd = Return input"
  then show "length input \<le> kMaxInputSize"
    by (simp add: ReadAllFromFd_Return)
qed

lemma length_concat_replicate: "length (concat (replicate n c)) = n * length c"
  by (induction n) simp_all

lemma concat_replicate_replicate: "concat (replicate n (replicate k x)) = replicate (n * k) x"
  by (induction n) (simp_all add: replicate_add)

lemma loop_replicate:
  "c \<noteq> [] \<Longrightarrow> length result + n * length c \<le> kMaxInputSize \<Longrightarrow>
   ReadAllFromFd_loop result (replicate n (Data c) @ fd) =
     ReadAllFromFd_loop (result @ concat (replicate n c)) fd"
proof (induction n arbitrary: result)
  case 0
  then show ?case by simp
next
  case (Suc n)
  from Suc.prems have "length (result @ c) + n * length c \<le> kMaxInputSize" by simp
  with Suc.IH [of "result @ c"] Suc.prems show ?case by simp
qed

lemma delivered_replicate:
  "c \<noteq> [] \<Longrightarrow> delivered (replicate n (Data c)) = concat (replicate n c)"
  by (induction n) simp_all

lemma read_error_replicate: "read_error (replicate n (Data c)) = None"
  by (induction n) simp_all

lemma big_input_split: "big_input = replicate 25600 (Data (replicate 4096 CHR '' '')) @ [Data (replicate 4096 CHR '' '')]"
proof -
  have "replicate (25600 + 1) (Data (replicate 4096 CHR '' '')) =
        replicate 25600 (Data (replicate 4096 CHR '' '')) @ replicate 1 (Data (replicate 4096 CHR '' ''))"
    by (rule replicate_add)
  then show ?thesis by (simp add: big_input_def)
qed

lemma big_input_loop:
  "ReadAllFromFd_loop [] big_input = (TooLarge, replicate 104861696 CHR '' '')"
proof -
  have ne: "replicate 4096 CHR '' '' \<noteq> []" by simp
  have "ReadAllFromFd_loop [] big_input =
        ReadAllFromFd_loop ([] @ concat (replicate 25600 (replicate 4096 CHR '' '')))
          [Data (replicate 4096 CHR '' '')]"
    unfolding big_input_split
    by (rule loop_replicate [OF ne]) (simp add: kMaxInputSize_def)
  also have "\<dots> = (TooLarge, replicate 104861696 CHR '' '')"
    by (simp add: concat_replicate_replicate kMaxInputSize_def flip: replicate_add)
  finally show ?thesis .
qed

lemma big_input_delivered: "delivered big_input = replicate 104861696 CHR '' ''"
  by (simp add: big_input_def delivered_replicate concat_replicate_replicate)

text \<open>
  Claim C4 as stated says that storage is never allocated past the ceiling. On \<open>big_input\<close>
  the buffer holds 104861696 bytes when the check stops the loop, and the ceiling is
  104857600.
\<close>

theorem C4_counterexample:
  "fst (ReadAllFromFd_loop [] big_input) = TooLarge
   \<and> length (snd (ReadAllFromFd_loop [] big_input)) = 104861696
   \<and> kMaxInputSize = 104857600"
  by (simp add: big_input_loop kMaxInputSize_def)


text \<open>The theorem of claim C4 on \<open>big_input\<close> and on an input of ten bytes.\<close>

theorem C4_size_ceiling_witness:
  "length (snd (ReadAllFromFd_loop [] big_input)) \<le> kMaxInputSize + kReadBufferSize
   \<and> fst (ReadAllFromFd_loop [] big_input) = TooLarge
   \<and> ReadAllFromFd big_input = Exit 1 too_large_message
   \<and> Roundtrip count_engine count_schema big_input
       = \<lparr>exit_code = 1, stdout = [], stderr = too_large_message\<rparr>
   \<and> length ''count: 300'' \<le> kMaxInputSize"
proof -
  have h1: "\<forall>c. Data c \<in> set big_input \<longrightarrow> length c \<le> kReadBufferSize"
    by (simp add: big_input_def kReadBufferSize_def)
  have h2: "kMaxInputSize < length (delivered big_input)"
    by (simp add: big_input_delivered kMaxInputSize_def)
  have h3: "ReadAllFromFd [Data ''count: 300''] = Return ''count: 300''"
    by (simp add: ReadAllFromFd_def kMaxInputSize_def)
  show ?thesis
    using C4_size_ceiling [of big_input count_engine count_schema]
      C4_size_ceiling [of "[Data ''count: 300'']" count_engine count_schema] h1 h2 h3
    by blast
qed

section \<open>The harness operations\<close>

text \<open>
  What \<open>ReadAllFromFd\<close> hands to an operation depends on the delivered bytes and on how
  the stream ended, not on how the reads cut the stream into chunks.
\<close>

lemma ReadAllFromFd_cong:
  "delivered fd1 = delivered fd2 \<Longrightarrow> read_error fd1 = read_error fd2 \<Longrightarrow>
   ReadAllFromFd fd1 = ReadAllFromFd fd2"
  by (simp add: ReadAllFromFd_eq split: option.splits)

lemma operations_cong:
  assumes "ReadAllFromFd fd1 = ReadAllFromFd fd2"
  shows "Encode pb d fd1 = Encode pb d fd2"
    and "Decode pb d fd1 = Decode pb d fd2"
    and "Roundtrip pb d fd1 = Roundtrip pb d fd2"
    and "Encode_T pb d fd1 = Encode_T pb d fd2"
    and "Decode_T pb d fd1 = Decode_T pb d fd2"
    and "Roundtrip_T pb d fd1 = Roundtrip_T pb d fd2"
  by (simp_all add: Encode_def Decode_def Roundtrip_def Encode_T_def Decode_T_def
      Roundtrip_T_def assms)

lemma main_dynamic_cong:
  assumes "ReadAllFromFd fd1 = ReadAllFromFd fd2"
  shows "main_dynamic pb fl fd1 = main_dynamic pb fl fd2"
  by (simp add: main_dynamic_def Let_def operations_cong [OF assms]
      split: prod.splits option.splits)

lemma main_compiled_cong:
  assumes "ReadAllFromFd fd1 = ReadAllFromFd fd2"
  shows "main_compiled pb mode message fd1 = main_compiled pb mode message fd2"
  by (simp add: main_compiled_def RunWithMessage_def operations_cong [OF assms])

text \<open>
  The operations over a library with a state: what they do when the library has none,
  how the recording library relates to the one it records, which calls a run makes, and
  what a parser's failure leads to.
\<close>

lemma stateless_runs:
  "Encode_st (stateless pb) d fd s = (Encode pb d fd, s)"
  "Decode_st (stateless pb) d fd s = (Decode pb d fd, s)"
  "Roundtrip_st (stateless pb) d fd s = (Roundtrip pb d fd, s)"
  "Encode_T_st (stateless pb) d fd s = (Encode_T pb d fd, s)"
  "Decode_T_st (stateless pb) d fd s = (Decode_T pb d fd, s)"
  "Roundtrip_T_st (stateless pb) d fd s = (Roundtrip_T pb d fd, s)"
  by (simp_all add: stateless_def Encode_st_def Decode_st_def Roundtrip_st_def Encode_T_st_def
      Decode_T_st_def Roundtrip_T_st_def Encode_def Decode_def Roundtrip_def Encode_T_def
      Decode_T_def Roundtrip_T_def split: run.splits option.splits)

lemma st_cong:
  assumes "ReadAllFromFd fd1 = ReadAllFromFd fd2"
  shows "Encode_st lib d fd1 s = Encode_st lib d fd2 s"
    and "Decode_st lib d fd1 s = Decode_st lib d fd2 s"
    and "Roundtrip_st lib d fd1 s = Roundtrip_st lib d fd2 s"
    and "Encode_T_st lib d fd1 s = Encode_T_st lib d fd2 s"
    and "Decode_T_st lib d fd1 s = Decode_T_st lib d fd2 s"
    and "Roundtrip_T_st lib d fd1 s = Roundtrip_T_st lib d fd2 s"
  by (simp_all add: Encode_st_def Decode_st_def Roundtrip_st_def Encode_T_st_def Decode_T_st_def
      Roundtrip_T_st_def assms)

lemma logged_simps:
  "call_GetPrototype (logged lib) d sl =
     (fst (call_GetPrototype lib d (fst sl)),
      (snd (call_GetPrototype lib d (fst sl)), snd sl @ [GetPrototype_call]))"
  "call_TextFormat_ParseFromString (logged lib) d input sl =
     (fst (call_TextFormat_ParseFromString lib d input (fst sl)),
      (snd (call_TextFormat_ParseFromString lib d input (fst sl)),
       snd sl @ [TextFormat_ParseFromString_call]))"
  "call_SerializeToString (logged lib) m sl =
     (fst (call_SerializeToString lib m (fst sl)),
      (snd (call_SerializeToString lib m (fst sl)), snd sl @ [SerializeToString_call]))"
  "call_ParseFromString (logged lib) d input sl =
     (fst (call_ParseFromString lib d input (fst sl)),
      (snd (call_ParseFromString lib d input (fst sl)), snd sl @ [ParseFromString_call]))"
  "call_TextFormat_PrintToString (logged lib) m sl =
     (fst (call_TextFormat_PrintToString lib m (fst sl)),
      (snd (call_TextFormat_PrintToString lib m (fst sl)),
       snd sl @ [TextFormat_PrintToString_call]))"
  "call_MessageDifferencer_Equals (logged lib) a b sl =
     (fst (call_MessageDifferencer_Equals lib a b (fst sl)),
      (snd (call_MessageDifferencer_Equals lib a b (fst sl)),
       snd sl @ [MessageDifferencer_Equals_call]))"
  "call_DebugString (logged lib) m sl =
     (fst (call_DebugString lib m (fst sl)),
      (snd (call_DebugString lib m (fst sl)), snd sl @ [DebugString_call]))"
  by (simp_all add: logged_def)

lemmas run_beta = split_beta option.case_eq_if bool.case_eq_if

lemma logged_runs:
  "fst (Encode_st (logged lib) d fd (s, [])) = fst (Encode_st lib d fd s)"
  "fst (snd (Encode_st (logged lib) d fd (s, []))) = snd (Encode_st lib d fd s)"
  "fst (Decode_st (logged lib) d fd (s, [])) = fst (Decode_st lib d fd s)"
  "fst (snd (Decode_st (logged lib) d fd (s, []))) = snd (Decode_st lib d fd s)"
  "fst (Roundtrip_st (logged lib) d fd (s, [])) = fst (Roundtrip_st lib d fd s)"
  "fst (snd (Roundtrip_st (logged lib) d fd (s, []))) = snd (Roundtrip_st lib d fd s)"
  "fst (Encode_T_st (logged lib) d fd (s, [])) = fst (Encode_T_st lib d fd s)"
  "fst (snd (Encode_T_st (logged lib) d fd (s, []))) = snd (Encode_T_st lib d fd s)"
  "fst (Decode_T_st (logged lib) d fd (s, [])) = fst (Decode_T_st lib d fd s)"
  "fst (snd (Decode_T_st (logged lib) d fd (s, []))) = snd (Decode_T_st lib d fd s)"
  "fst (Roundtrip_T_st (logged lib) d fd (s, [])) = fst (Roundtrip_T_st lib d fd s)"
  "fst (snd (Roundtrip_T_st (logged lib) d fd (s, []))) = snd (Roundtrip_T_st lib d fd s)"
  by (simp_all add: Encode_st_def Decode_st_def Roundtrip_st_def Encode_T_st_def
      Decode_T_st_def Roundtrip_T_st_def logged_simps run_beta split: run.splits)

lemma logged_calls:
  "prefix (snd (snd (Encode_st (logged lib) d fd (s, []))))
     [GetPrototype_call, TextFormat_ParseFromString_call, SerializeToString_call]"
  "prefix (snd (snd (Decode_st (logged lib) d fd (s, []))))
     [GetPrototype_call, ParseFromString_call, TextFormat_PrintToString_call]"
  "prefix (snd (snd (Roundtrip_st (logged lib) d fd (s, []))))
     [GetPrototype_call, TextFormat_ParseFromString_call, SerializeToString_call,
      ParseFromString_call, MessageDifferencer_Equals_call, DebugString_call, DebugString_call]"
  "prefix (snd (snd (Encode_T_st (logged lib) d fd (s, []))))
     [TextFormat_ParseFromString_call, SerializeToString_call]"
  "prefix (snd (snd (Decode_T_st (logged lib) d fd (s, []))))
     [ParseFromString_call, TextFormat_PrintToString_call]"
  "prefix (snd (snd (Roundtrip_T_st (logged lib) d fd (s, []))))
     [TextFormat_ParseFromString_call, SerializeToString_call,
      ParseFromString_call, MessageDifferencer_Equals_call, DebugString_call, DebugString_call]"
  by (simp_all add: Encode_st_def Decode_st_def Roundtrip_st_def Encode_T_st_def
      Decode_T_st_def Roundtrip_T_st_def logged_simps run_beta split: run.splits)

lemma failure_is_final:
  "ReadAllFromFd fd = Return input \<Longrightarrow> call_GetPrototype lib d s = (True, s1) \<Longrightarrow>
   call_TextFormat_ParseFromString lib d input s1 = (None, s2) \<Longrightarrow>
   Encode_st lib d fd s = (failed (''Failed to parse text format input'' @ endl), s2)"
  "ReadAllFromFd fd = Return input \<Longrightarrow> call_GetPrototype lib d s = (True, s1) \<Longrightarrow>
   call_ParseFromString lib d input s1 = (None, s2) \<Longrightarrow>
   Decode_st lib d fd s = (failed (''Failed to parse binary input'' @ endl), s2)"
  "ReadAllFromFd fd = Return input \<Longrightarrow>
   call_TextFormat_ParseFromString lib d input s = (None, s2) \<Longrightarrow>
   Encode_T_st lib d fd s = (failed (''Failed to parse text format input'' @ endl), s2)"
  "ReadAllFromFd fd = Return input \<Longrightarrow>
   call_ParseFromString lib d input s = (None, s2) \<Longrightarrow>
   Decode_T_st lib d fd s = (failed (''Failed to parse binary input'' @ endl), s2)"
  by (simp_all add: Encode_st_def Decode_st_def Encode_T_st_def Decode_T_st_def)


text \<open>A text the parser rejects: what encode and the batch driver's test case do.\<close>

lemma Encode_parse_failure:
  assumes "TextFormat_ParseFromString pb d (delivered fd) = None"
  shows "exit_code (Encode pb d fd) = 1 \<and> stdout (Encode pb d fd) = []"
  using assms
  by (auto simp: Encode_def ReadAllFromFd_eq failed_def split: option.splits)

lemma Encode_T_parse_failure:
  assumes "TextFormat_ParseFromString pb d (delivered fd) = None"
  shows "exit_code (Encode_T pb d fd) = 1 \<and> stdout (Encode_T pb d fd) = []"
  using assms
  by (auto simp: Encode_T_def ReadAllFromFd_eq failed_def split: option.splits)

lemma ProcessTestCase_parse_failure:
  assumes "TextFormat_ParseFromString pb T (fst (ReadFile os path e)) = None"
  shows "fst (ProcessTestCase os pb T path bin e) = False
         \<and> written (snd (ProcessTestCase os pb T path bin e)) = written e
         \<and> world (snd (ProcessTestCase os pb T path bin e)) = world e
         \<and> cout (snd (ProcessTestCase os pb T path bin e)) = cout e"
  using assms
  by (auto simp: ProcessTestCase_def ReadFile_def split: option.splits prod.splits)

text \<open>
  Claim C6. When the text parser rejects the input, encode ends with exit code 1 and
  writes nothing to standard output, in both harnesses; once the input has been read
  completely (and the prototype exists), the run is exactly the report "Failed to parse
  text format input". In the batch driver the test case fails, writes no file and prints
  no "Generated" line. Which texts the parser rejects is the library's matter: the parser
  is a parameter.
\<close>

theorem C6_text_parse_failure:
  "(TextFormat_ParseFromString pb d (delivered fd) = None \<longrightarrow>
      exit_code (Encode pb d fd) = 1 \<and> stdout (Encode pb d fd) = []
      \<and> exit_code (Encode_T pb d fd) = 1 \<and> stdout (Encode_T pb d fd) = []
      \<and> (ReadAllFromFd fd = Return (delivered fd) \<longrightarrow>
           Encode_T pb d fd = failed (''Failed to parse text format input'' @ endl)
           \<and> (GetPrototype pb d \<longrightarrow>
                Encode pb d fd = failed (''Failed to parse text format input'' @ endl))))
   \<and> (TextFormat_ParseFromString pb d (fst (ReadFile os path e)) = None \<longrightarrow>
        fst (ProcessTestCase os pb d path bin e) = False
        \<and> written (snd (ProcessTestCase os pb d path bin e)) = written e
        \<and> world (snd (ProcessTestCase os pb d path bin e)) = world e
        \<and> cout (snd (ProcessTestCase os pb d path bin e)) = cout e)"
  using Encode_parse_failure [of pb d fd] Encode_T_parse_failure [of pb d fd]
    ProcessTestCase_parse_failure [of pb d os path e bin]
  by (auto simp: Encode_def Encode_T_def)

text \<open>
  Claim C7. After a successful import, the lookup of the message name either finds no
  descriptor, and then the run is exactly: exit code 1, nothing on standard output, and on
  standard error the importer's diagnostics, "Message not found:" with the name and the
  list of the available messages, whatever standard input and the codec hold; or it
  returns a descriptor, and then the run is the selected operation on that descriptor.
\<close>

theorem C7_type_resolution:
  "FLAGS_proto fl \<noteq> [] \<Longrightarrow> FLAGS_message fl \<noteq> [] \<Longrightarrow>
   Import pb (FLAGS_proto_path fl) (FLAGS_proto fl) = (diags, Some importer) \<Longrightarrow>
   (FindMessageTypeByName pb importer (FLAGS_message fl) = None \<longrightarrow>
      main_dynamic pb fl fd =
        \<lparr>exit_code = 1, stdout = [],
         stderr = concat (map ErrorCollector diags)
           @ ''Message not found: '' @ FLAGS_message fl @ endl
           @ ''Available messages in '' @ FLAGS_proto fl @ '':'' @ endl
           @ concat (map (\<lambda>full_name. ''  '' @ full_name @ endl)
                       (message_type_names pb importer))\<rparr>)
   \<and> (\<forall>descriptor. FindMessageTypeByName pb importer (FLAGS_message fl) = Some descriptor \<longrightarrow>
        (FLAGS_mode fl = ''encode'' \<longrightarrow>
           main_dynamic pb fl fd =
             (Encode pb descriptor fd)\<lparr>stderr := concat (map ErrorCollector diags)
                @ stderr (Encode pb descriptor fd)\<rparr>)
        \<and> (FLAGS_mode fl = ''decode'' \<longrightarrow>
           main_dynamic pb fl fd =
             (Decode pb descriptor fd)\<lparr>stderr := concat (map ErrorCollector diags)
                @ stderr (Decode pb descriptor fd)\<rparr>)
        \<and> (FLAGS_mode fl = ''roundtrip'' \<longrightarrow>
           main_dynamic pb fl fd =
             (Roundtrip pb descriptor fd)\<lparr>stderr := concat (map ErrorCollector diags)
                @ stderr (Roundtrip pb descriptor fd)\<rparr>))"
  by (simp add: main_dynamic_def failed_def Let_def)


section \<open>Concrete runs\<close>

text \<open>The engine on the scenario of section 8 of the specification.\<close>

lemma count_parse:
  "parseText repo cv count_schema ''count: 300'' = Inr (DynamicMessage [(1, [VInt 300])] [])"
  by code_simp

lemma count_encode:
  "encodeBinary repo count_schema (DynamicMessage [(1, [VInt 300])] [])
     = [CHR 0x08, CHR 0xAC, CHR 0x02]"
  by code_simp

lemma count_decode:
  "decodeBinary repo ceiling count_schema [CHR 0x08, CHR 0xAC, CHR 0x02]
     = Inr (DynamicMessage [(1, [VInt 300])] [])"
  by code_simp

lemma count_print:
  "print repo cv count_schema (DynamicMessage [(1, [VInt 300])] []) = ''count: 300'' @ endl"
  by code_simp

lemma count_compare:
  "compare (DynamicMessage [(1, [VInt 300])] []) (DynamicMessage [(1, [VInt 300])] []) = Equal"
  by code_simp

lemma read_one [simp]:
  "s \<noteq> [] \<Longrightarrow> length s \<le> 1000 \<Longrightarrow> ReadAllFromFd [Data s] = Return s"
  by (simp add: ReadAllFromFd_def kMaxInputSize_def)

lemma count_engine_simps [simp]:
  "GetPrototype count_engine d = True"
  "TextFormat_ParseFromString count_engine d input =
     (case parseText [count_schema] no_float_text d input of
        Inl e \<Rightarrow> None | Inr m \<Rightarrow> Some (d, m))"
  "SerializeToString count_engine dm = Some (encodeBinary [count_schema] (fst dm) (snd dm))"
  "ParseFromString count_engine d buf =
     (case decodeBinary [count_schema] kMaxInputSize d buf of
        Inl e \<Rightarrow> None | Inr m \<Rightarrow> Some (d, m))"
  "TextFormat_PrintToString count_engine dm = Some (print [count_schema] no_float_text (fst dm) (snd dm))"
  "MessageDifferencer_Equals count_engine a b = (compare (snd a) (snd b) = Equal)"
  "Import count_engine pp pf = ([], Some [count_schema])"
  by (simp_all add: count_engine_def engine_def)

text \<open>
  Claim C2, on the engine of the specification behind the harness of main.cpp: with the
  schema whose field \<open>count\<close> is number 1 of the signed 32-bit varint kind, encode turns
  the text \<open>count: 300\<close> into exactly the bytes 08 AC 02 and exits with 0, and decode
  turns the bytes 08 AC 02 into the line \<open>count: 300\<close> and exits with 0.
\<close>

theorem C2_wire_scenario:
  "Encode count_engine count_schema [Data ''count: 300'']
     = \<lparr>exit_code = 0, stdout = [CHR 0x08, CHR 0xAC, CHR 0x02], stderr = []\<rparr>
   \<and> Decode count_engine count_schema [Data [CHR 0x08, CHR 0xAC, CHR 0x02]]
     = \<lparr>exit_code = 0, stdout = ''count: 300'' @ endl, stderr = []\<rparr>"
  by (simp add: Encode_def Decode_def count_parse count_encode count_decode count_print
      del: One_nat_def)


section \<open>The round trip of the codec\<close>

text \<open>A variable-length integer of at most ten bytes is read back as it was written.\<close>

lemma of_char_char_of_int: "0 \<le> n \<Longrightarrow> n < 256 \<Longrightarrow> of_char (char_of n) = (n :: int)"
  by (simp add: of_char_of)

lemma decode_encode_varint_from:
  "0 \<le> n \<Longrightarrow> n < 128 ^ (10 - i) \<Longrightarrow> i < 10 \<Longrightarrow>
   decode_varint_from i (encode_varint n @ rest) = Inr (n * 128 ^ i, rest)"
proof (induction n arbitrary: i rule: encode_varint.induct)
  case (1 n)
  show ?case
  proof (cases "n < 128")
    case True
    with "1.prems" show ?thesis
      by (simp add: encode_varint.simps [of n] of_char_char_of_int)
  next
    case False
    have m: "0 \<le> n mod 128" "n mod 128 < 128" by simp_all
    have c: "of_char (char_of (128 + n mod 128)) = 128 + n mod 128"
      using m by (intro of_char_char_of_int) linarith+
    have i9: "i < 9"
    proof (rule ccontr)
      assume "\<not> i < 9"
      with "1.prems" have "i = 9" by simp
      with "1.prems" False show False by simp
    qed
    have p: "(128 :: int) ^ (10 - i) = 128 * 128 ^ (10 - Suc i)"
      using i9 by (simp add: power_Suc [symmetric] Suc_diff_Suc del: power_Suc)
    have d: "n div 128 < 128 ^ (10 - Suc i)"
    proof -
      have "n = 128 * (n div 128) + n mod 128" by simp
      with m "1.prems"(2) p show ?thesis by linarith
    qed
    have "decode_varint_from (Suc i) (encode_varint (n div 128) @ rest)
            = Inr (n div 128 * 128 ^ Suc i, rest)"
      using "1.IH" [OF False _ d] "1.prems" i9 False by simp
    moreover have "n mod 128 * 128 ^ i + n div 128 * 128 ^ Suc i = n * 128 ^ i"
    proof -
      have "n mod 128 * 128 ^ i + n div 128 * 128 ^ Suc i
              = (n mod 128 + n div 128 * 128) * 128 ^ i"
        by (simp only: power_Suc ring_distribs mult_ac)
      also have "\<dots> = n * 128 ^ i" by (simp only: mod_div_mult_eq)
      finally show ?thesis .
    qed
    moreover have "(n mod 128 < 0) = False" using m(1) by (simp only: not_less [symmetric] simp_thms)
    ultimately show ?thesis
      using False "1.prems" c by (simp add: encode_varint.simps [of n])
  qed
qed

lemma decode_encode_varint:
  "0 \<le> n \<Longrightarrow> n < 2 ^ 64 \<Longrightarrow> decode_varint (encode_varint n @ rest) = Inr (n, rest)"
  using decode_encode_varint_from [of n 0 rest] by (simp add: decode_varint_def)


text \<open>Fixed-width values, two's complement and zigzag.\<close>

lemma little_endian_length [simp]: "length (little_endian n v) = n"
  by (induction n arbitrary: v) simp_all

lemma from_little_endian_Cons:
  "from_little_endian (b # bs) = of_char b + 256 * from_little_endian bs"
  by (simp add: from_little_endian_def)

lemma from_little_endian_inverse:
  "0 \<le> v \<Longrightarrow> v < 256 ^ n \<Longrightarrow> from_little_endian (little_endian n v) = v"
proof (induction n arbitrary: v)
  case 0
  then show ?case by (simp add: from_little_endian_def)
next
  case (Suc n)
  have m: "0 \<le> v mod 256" "v mod 256 < 256" by simp_all
  have d: "0 \<le> v div 256" "v div 256 < 256 ^ n"
  proof -
    show "0 \<le> v div 256" using Suc.prems(1) by (simp add: pos_imp_zdiv_nonneg_iff)
    have "v = 256 * (v div 256) + v mod 256" by simp
    with m Suc.prems(2) show "v div 256 < 256 ^ n" by simp
  qed
  have "of_char (char_of (v mod 256)) = v mod 256"
    using m by (intro of_char_char_of_int)
  with Suc.IH [OF d] show ?case
    by (simp add: from_little_endian_Cons)
qed

lemma mod_negative:
  fixes i m :: int
  assumes "- m \<le> i" and "i < 0"
  shows "i mod m = i + m"
proof -
  have "i mod m = (i + m) mod m" by simp
  also have "\<dots> = i + m" using assms by (intro mod_pos_pos_trivial) simp_all
  finally show ?thesis .
qed

lemma mod_small:
  fixes i m :: int
  shows "0 \<le> i \<Longrightarrow> i < m \<Longrightarrow> i mod m = i"
  by simp

lemma signed_mod:
  assumes "0 < w" and "- (2 ^ (w - 1)) \<le> i" and "i < 2 ^ (w - 1)"
  shows "signed w (i mod 2 ^ w) = i"
proof -
  have p: "(2 :: int) ^ w = 2 * 2 ^ (w - 1)"
    using assms(1) by (cases w) simp_all
  show ?thesis
  proof (cases "0 \<le> i")
    case True
    with assms p have "i mod 2 ^ w = i" by (intro mod_small) simp_all
    with True assms show ?thesis by (simp add: signed_def Let_def)
  next
    case False
    with assms p have "i mod 2 ^ w = i + 2 ^ w" by (intro mod_negative) simp_all
    with False assms p show ?thesis by (simp add: signed_def Let_def)
  qed
qed

lemma signed_mod_wider:
  assumes "0 < w" and "w \<le> w'" and "- (2 ^ (w - 1)) \<le> i" and "i < 2 ^ (w - 1)"
  shows "signed w (i mod 2 ^ w') = i"
proof -
  have "(i mod 2 ^ w') mod 2 ^ w = i mod (2 :: int) ^ w"
    using assms(2) by (simp add: mod_mod_cancel le_imp_power_dvd)
  then have "signed w (i mod 2 ^ w') = signed w (i mod 2 ^ w)"
    by (simp add: signed_def)
  with signed_mod [OF assms(1,3,4)] show ?thesis by simp
qed

lemma unzigzag_zigzag: "unzigzag (zigzag i) = i"
  unfolding unzigzag_def zigzag_def by presburger

lemma zigzag_range:
  "- b \<le> i \<Longrightarrow> i < b \<Longrightarrow> 0 \<le> zigzag i \<and> zigzag i < 2 * b"
  by (simp add: zigzag_def)


text \<open>The payload of a value, split off the front of a buffer.\<close>

lemma split_varint:
  "0 \<le> x \<Longrightarrow> x < 2 ^ 64 \<Longrightarrow>
   split_payload c 0 (encode_varint x @ rest) = Inr (encode_varint x, PVarint x, rest)"
  by (simp add: split_payload_def decode_encode_varint)

lemma split_fixed64:
  "0 \<le> x \<Longrightarrow> x < 2 ^ 64 \<Longrightarrow>
   split_payload c 1 (little_endian 8 x @ rest) = Inr (little_endian 8 x, PFixed x, rest)"
  using from_little_endian_inverse [of x 8] by (simp add: split_payload_def)

lemma split_fixed32:
  "0 \<le> x \<Longrightarrow> x < 2 ^ 32 \<Longrightarrow>
   split_payload c 5 (little_endian 4 x @ rest) = Inr (little_endian 4 x, PFixed x, rest)"
  using from_little_endian_inverse [of x 4] by (simp add: split_payload_def)

lemma split_bytes:
  "length s \<le> c \<Longrightarrow> c < 2 ^ 64 \<Longrightarrow>
   split_payload c 2 (encode_varint (int (length s)) @ s @ rest)
     = Inr (encode_varint (int (length s)) @ s, PBytes s, rest)"
  using decode_encode_varint [of "int (length s)" "s @ rest"]
  by (simp add: split_payload_def)


lemma int_split:
  assumes "value_has_kind k (VInt i)"
  shows "\<exists>p. split_payload c (wire_type k) (encode_value repo k (VInt i) @ rest)
               = Inr (encode_value repo k (VInt i), p, rest)
             \<and> scalar_value k p = VInt i"
proof -
  have s32: "- (2 ^ 31) \<le> i \<Longrightarrow> i < 2 ^ 31 \<Longrightarrow> signed 32 (i mod 2 ^ 64) = i"
    "- (2 ^ 31) \<le> i \<Longrightarrow> i < 2 ^ 31 \<Longrightarrow> signed 32 (i mod 2 ^ 32) = i"
    using signed_mod_wider [of 32 64 i] signed_mod [of 32 i] by simp_all
  have s64: "- (2 ^ 63) \<le> i \<Longrightarrow> i < 2 ^ 63 \<Longrightarrow> signed 64 (i mod 2 ^ 64) = i"
    using signed_mod [of 64 i] by simp
  have m64: "0 \<le> i mod 2 ^ 64" "i mod 2 ^ 64 < 2 ^ 64"
    and m32: "0 \<le> i mod 2 ^ 32" "i mod 2 ^ 32 < 2 ^ 32"
    by simp_all
  consider (z32) "k = KSInt32" | (z64) "k = KSInt64" | (f32) "k = KFixed32"
    | (sf32) "k = KSFixed32" | (f64) "k = KFixed64" | (sf64) "k = KSFixed64"
    | (i32) "k = KInt32" | (i64) "k = KInt64" | (u32) "k = KUInt32" | (u64) "k = KUInt64"
    using assms by (auto split: if_splits)
  then show ?thesis
  proof cases
    case z32
    with assms have r: "- (2 ^ 31) \<le> i" "i < 2 ^ 31" by (simp_all add: in_range_def)
    from zigzag_range [OF r] have z: "0 \<le> zigzag i" "zigzag i < 2 ^ 32" by simp_all
    then have "zigzag i mod 2 ^ 32 = zigzag i" by (intro mod_small)
    with z z32 show ?thesis
      using split_varint [of "zigzag i" c rest] by (simp add: unzigzag_zigzag)
  next
    case z64
    with assms have r: "- (2 ^ 63) \<le> i" "i < 2 ^ 63" by (simp_all add: in_range_def)
    from zigzag_range [OF r] have z: "0 \<le> zigzag i" "zigzag i < 2 ^ 64" by simp_all
    with z64 show ?thesis
      using split_varint [of "zigzag i" c rest] by (simp add: unzigzag_zigzag)
  next
    case f32
    with assms have "i mod 2 ^ 32 = i" by (intro mod_small) (simp_all add: in_range_def)
    with f32 m32 show ?thesis
      using split_fixed32 [of "i mod 2 ^ 32" c rest] by simp
  next
    case sf32
    with assms have r: "- (2 ^ 31) \<le> i" "i < 2 ^ 31" by (simp_all add: in_range_def)
    with sf32 m32 s32(2) show ?thesis
      using split_fixed32 [of "i mod 2 ^ 32" c rest] by simp
  next
    case f64
    with assms have "i mod 2 ^ 64 = i" by (intro mod_small) (simp_all add: in_range_def)
    with f64 m64 show ?thesis
      using split_fixed64 [of "i mod 2 ^ 64" c rest] by simp
  next
    case sf64
    with assms have r: "- (2 ^ 63) \<le> i" "i < 2 ^ 63" by (simp_all add: in_range_def)
    with sf64 m64 s64 show ?thesis
      using split_fixed64 [of "i mod 2 ^ 64" c rest] by simp
  next
    case i32
    with assms have r: "- (2 ^ 31) \<le> i" "i < 2 ^ 31" by (simp_all add: in_range_def)
    with i32 m64 s32(1) show ?thesis
      using split_varint [of "i mod 2 ^ 64" c rest] by simp
  next
    case i64
    with assms have r: "- (2 ^ 63) \<le> i" "i < 2 ^ 63" by (simp_all add: in_range_def)
    with i64 m64 s64 show ?thesis
      using split_varint [of "i mod 2 ^ 64" c rest] by simp
  next
    case u32
    with assms have r: "0 \<le> i" "i < 2 ^ 32" by (simp_all add: in_range_def)
    then have "i mod 2 ^ 64 = i" "i mod 2 ^ 32 = i" by (simp_all add: mod_small)
    with u32 r show ?thesis
      using split_varint [of i c rest] by simp
  next
    case u64
    with assms have r: "0 \<le> i" "i < 2 ^ 64" by (simp_all add: in_range_def)
    then have "i mod 2 ^ 64 = i" by (simp_all add: mod_small)
    with u64 r show ?thesis
      using split_varint [of i c rest] by simp
  qed
qed

lemma scalar_split:
  assumes "value_has_kind k v" and "nested_descriptor k = None"
    and "length (encode_value repo k v) \<le> c" and "c < 2 ^ 64"
  shows "\<exists>p. split_payload c (wire_type k) (encode_value repo k v @ rest)
               = Inr (encode_value repo k v, p, rest)
             \<and> scalar_value k p = v"
proof (cases v)
  case (VInt i)
  with assms(1) int_split [of k i c repo rest] show ?thesis by simp
next
  case (VBool b)
  with assms(1) show ?thesis
    using split_varint [of 1 c rest] split_varint [of 0 c rest] by (cases b) simp_all
next
  case (VFloat w)
  have "0 \<le> uint w" "uint w < 2 ^ 32" using uint_bounded [of w] by simp_all
  with VFloat assms(1) show ?thesis
    using split_fixed32 [of "uint w" c rest] by simp
next
  case (VDouble w)
  have "0 \<le> uint w" "uint w < 2 ^ 64" using uint_bounded [of w] by simp_all
  with VDouble assms(1) show ?thesis
    using split_fixed64 [of "uint w" c rest] by simp
next
  case (VString s)
  with assms(1,3,4) show ?thesis
    using split_bytes [of s c rest] by simp
next
  case (VBytes s)
  with assms(1,3,4) show ?thesis
    using split_bytes [of s c rest] by simp
next
  case (VMessage m)
  with assms(1,2) show ?thesis by simp
qed

lemma message_split:
  assumes "nested_descriptor k = Some i"
    and "length (encode_value repo k (VMessage m)) \<le> c" and "c < 2 ^ 64"
  shows "split_payload c (wire_type k) (encode_value repo k (VMessage m) @ rest)
           = Inr (encode_value repo k (VMessage m),
                  PBytes (encode_message repo (descriptor_at repo i) m), rest)"
proof -
  from assms(1) have k: "k = KMessage i" by (cases k) simp_all
  with assms(2,3) show ?thesis
    using split_bytes [of "encode_message repo (descriptor_at repo i) m" c rest]
    by (simp add: Let_def)
qed


text \<open>Reading one field: the tag, then the payload.\<close>

lemma wire_type_small: "wire_type k < 8"
  by (cases k) simp_all

lemma encode_varint_nonempty: "encode_varint n \<noteq> []"
  by (subst encode_varint.simps) simp

lemma decode_tag:
  assumes "n < 2 ^ 61" and "wt < 8"
  shows "decode_varint (encode_tag n wt @ rest) = Inr (int n * 8 + int wt, rest)"
proof -
  have "int n < 2 ^ 61" using assms(1) by (metis of_nat_less_iff of_nat_numeral of_nat_power)
  moreover have "int wt < 8" using assms(2) by simp
  ultimately have "int n * 8 + int wt < 2 ^ 64" by simp
  then show ?thesis by (simp add: encode_tag_def decode_encode_varint)
qed

lemma decode_item:
  assumes "find_field desc (fd_number fd) = Some fd" and "fd_number fd < 2 ^ 61"
    and "split_payload ceiling (wire_type (fd_kind fd)) (enc @ rest) = Inr (raw, p, rest)"
  shows "decode_fields repo ceiling desc
           (encode_tag (fd_number fd) (wire_type (fd_kind fd)) @ enc @ rest) acc =
     (case nested_descriptor (fd_kind fd) of
        Some i \<Rightarrow>
          (case decode_fields repo ceiling (descriptor_at repo i) (payload_bytes p)
                  (DynamicMessage [] []) of
             Inl e \<Rightarrow> Inl e
           | Inr sub \<Rightarrow>
               (case store_value desc fd (VMessage sub) acc of
                  Inl e \<Rightarrow> Inl e
                | Inr m' \<Rightarrow> decode_fields repo ceiling desc rest m'))
      | None \<Rightarrow>
          (case store_value desc fd (scalar_value (fd_kind fd) p) acc of
             Inl e \<Rightarrow> Inl e
           | Inr m' \<Rightarrow> decode_fields repo ceiling desc rest m'))"
proof -
  define tag where "tag = int (fd_number fd) * 8 + int (wire_type (fd_kind fd))"
  define buf where "buf = encode_tag (fd_number fd) (wire_type (fd_kind fd)) @ enc @ rest"
  have t: "decode_varint buf = Inr (tag, enc @ rest)"
    unfolding buf_def tag_def using decode_tag [OF assms(2) wire_type_small] .
  have m: "nat (tag mod 8) = wire_type (fd_kind fd)"
    unfolding tag_def using wire_type_small [of "fd_kind fd"] by simp
  have d: "nat (tag div 8) = fd_number fd"
    unfolding tag_def using wire_type_small [of "fd_kind fd"] by simp
  have ne: "buf \<noteq> []"
    by (simp add: buf_def encode_tag_def encode_varint_nonempty)
  have "decode_fields repo ceiling desc buf acc =
     (case nested_descriptor (fd_kind fd) of
        Some i \<Rightarrow>
          (case decode_fields repo ceiling (descriptor_at repo i) (payload_bytes p)
                  (DynamicMessage [] []) of
             Inl e \<Rightarrow> Inl e
           | Inr sub \<Rightarrow>
               (case store_value desc fd (VMessage sub) acc of
                  Inl e \<Rightarrow> Inl e
                | Inr m' \<Rightarrow> decode_fields repo ceiling desc rest m'))
      | None \<Rightarrow>
          (case store_value desc fd (scalar_value (fd_kind fd) p) acc of
             Inl e \<Rightarrow> Inl e
           | Inr m' \<Rightarrow> decode_fields repo ceiling desc rest m'))"
    by (subst decode_fields.simps) (simp add: ne t m d assms(1,3))
  then show ?thesis by (simp add: buf_def)
qed


text \<open>Storing a value.\<close>

lemma map_of_put_values: "map_of (put_values n vs kn) = (map_of kn)(n \<mapsto> vs)"
  by (induction kn) auto

lemma keys_put_values: "set (map fst (put_values n vs kn)) = insert n (set (map fst kn))"
  by (induction kn) auto

lemma distinct_put_values:
  "distinct (map fst kn) \<Longrightarrow> distinct (map fst (put_values n vs kn))"
proof (induction kn)
  case Nil
  show ?case by simp
next
  case (Cons e kn)
  show ?case
  proof (cases "fst e = n")
    case True
    with Cons.prems show ?thesis by simp
  next
    case False
    with Cons keys_put_values [of n vs kn] show ?thesis by simp
  qed
qed

lemma store_value_stored:
  assumes "find_field desc (fd_number fd) = Some fd" and "value_has_kind (fd_kind fd) v"
  shows "store_value desc fd v m = Inr (stored fd v m)"
  using assms
  by (cases "fd_cardinality fd")
     (simp_all add: store_value_def setField_def appendRepeated_def stored_def)

lemma getRepeated_stored:
  "getRepeated (stored fd v m) n =
     (if n = fd_number fd
      then (if fd_cardinality fd = Repeated then getRepeated m n @ [v] else [v])
      else getRepeated m n)"
  by (simp add: stored_def getRepeated_def map_of_put_values)

lemma known_stored:
  "distinct (map fst (known m)) \<Longrightarrow> distinct (map fst (known (stored fd v m)))"
  "unknown (stored fd v m) = unknown m"
  by (simp_all add: stored_def distinct_put_values)


text \<open>Reading the values of a field, and the fields of a message, one after the other.\<close>

lemma decode_values:
  assumes "list_all2 (\<lambda>v v'. \<forall>rest acc.
      decode_fields repo c desc
        (encode_tag (fd_number fd) (wire_type (fd_kind fd)) @ encode_value repo (fd_kind fd) v
         @ rest) acc
      = decode_fields repo c desc rest (stored fd v' acc)) vs vs'"
  shows "decode_fields repo c desc
      (concat (map (\<lambda>v. encode_tag (fd_number fd) (wire_type (fd_kind fd))
                          @ encode_value repo (fd_kind fd) v) vs) @ rest) acc
    = decode_fields repo c desc rest (foldl (\<lambda>m v'. stored fd v' m) acc vs')"
  using assms
proof (induction vs vs' arbitrary: acc rule: list_all2_induct)
  case Nil
  show ?case by simp
next
  case (Cons v vs v' vs')
  from Cons.hyps(1) Cons.IH [of "stored fd v' acc"] show ?case by simp
qed

lemma decode_field_list:
  assumes "\<forall>fd \<in> set fds. list_all2 (\<lambda>v v'. \<forall>rest acc.
      decode_fields repo c desc
        (encode_tag (fd_number fd) (wire_type (fd_kind fd)) @ encode_value repo (fd_kind fd) v
         @ rest) acc
      = decode_fields repo c desc rest (stored fd v' acc)) (vals fd) (vals' fd)"
  shows "decode_fields repo c desc
      (concat (map (\<lambda>fd. concat (map (\<lambda>v. encode_tag (fd_number fd) (wire_type (fd_kind fd))
                          @ encode_value repo (fd_kind fd) v) (vals fd))) fds) @ rest) acc
    = decode_fields repo c desc rest
        (foldl (\<lambda>m fd. foldl (\<lambda>m v'. stored fd v' m) m (vals' fd)) acc fds)"
  using assms
proof (induction fds arbitrary: acc)
  case Nil
  show ?case by simp
next
  case (Cons fd fds)
  from Cons.prems have h: "list_all2 (\<lambda>v v'. \<forall>rest acc.
      decode_fields repo c desc
        (encode_tag (fd_number fd) (wire_type (fd_kind fd)) @ encode_value repo (fd_kind fd) v
         @ rest) acc
      = decode_fields repo c desc rest (stored fd v' acc)) (vals fd) (vals' fd)"
    by simp
  from Cons.prems have t: "\<forall>fd \<in> set fds. list_all2 (\<lambda>v v'. \<forall>rest acc.
      decode_fields repo c desc
        (encode_tag (fd_number fd) (wire_type (fd_kind fd)) @ encode_value repo (fd_kind fd) v
         @ rest) acc
      = decode_fields repo c desc rest (stored fd v' acc)) (vals fd) (vals' fd)"
    by simp
  show ?case
    using decode_values [OF h, of "concat (map (\<lambda>fd. concat (map (\<lambda>v. encode_tag (fd_number fd) (wire_type (fd_kind fd))
                          @ encode_value repo (fd_kind fd) v) (vals fd))) fds) @ rest" acc]
      Cons.IH [OF t, of "foldl (\<lambda>m v'. stored fd v' m) acc (vals' fd)"]
    by simp
qed

lemma fold_values_get:
  "getRepeated (foldl (\<lambda>m v'. stored fd v' m) acc vs) n =
     (if n = fd_number fd \<and> vs \<noteq> []
      then (if fd_cardinality fd = Repeated then getRepeated acc n @ vs else [last vs])
      else getRepeated acc n)"
  by (induction vs rule: rev_induct) (auto simp: getRepeated_stored split: if_splits)

lemma fold_values_known:
  "distinct (map fst (known acc)) \<Longrightarrow>
   distinct (map fst (known (foldl (\<lambda>m v'. stored fd v' m) acc vs)))"
  "unknown (foldl (\<lambda>m v'. stored fd v' m) acc vs) = unknown acc"
  by (induction vs rule: rev_induct) (simp_all add: known_stored)

lemma fold_fields_known:
  "distinct (map fst (known acc)) \<Longrightarrow>
   distinct (map fst (known (foldl (\<lambda>m fd. foldl (\<lambda>m v'. stored fd v' m) m (vals fd))
                               acc fds)))"
  "unknown (foldl (\<lambda>m fd. foldl (\<lambda>m v'. stored fd v' m) m (vals fd)) acc fds) = unknown acc"
  by (induction fds rule: rev_induct) (simp_all add: fold_values_known)

lemma fold_fields_get:
  assumes "distinct (map fd_number fds)"
  shows "getRepeated (foldl (\<lambda>m fd. foldl (\<lambda>m v'. stored fd v' m) m (vals fd)) acc fds) n =
     (case find (\<lambda>fd. fd_number fd = n) fds of
        None \<Rightarrow> getRepeated acc n
      | Some fd \<Rightarrow>
          if vals fd \<noteq> []
          then (if fd_cardinality fd = Repeated then getRepeated acc n @ vals fd
                else [last (vals fd)])
          else getRepeated acc n)"
  using assms
proof (induction fds arbitrary: acc)
  case Nil
  show ?case by simp
next
  case (Cons fd fds)
  show ?case
  proof (cases "fd_number fd = n")
    case True
    with Cons.prems have "find (\<lambda>fd. fd_number fd = n) fds = None"
      by (auto simp: find_None_iff) (metis imageI)
    with Cons True show ?thesis by (simp add: fold_values_get)
  next
    case False
    then have "n \<noteq> fd_number fd" by auto
    with False Cons show ?thesis by (simp add: fold_values_get split: option.splits)
  qed
qed


text \<open>The encoding of a message without unknown fields whose field numbers are distinct.\<close>

lemma concat_no_entry:
  "n \<notin> fst ` set kn \<Longrightarrow> concat (map (\<lambda>e. if fst e = n then f (snd e) else []) kn) = []"
  by (induction kn) auto

lemma concat_entries:
  assumes "distinct (map fst kn)" and "f [] = []"
  shows "concat (map (\<lambda>e. if fst e = n then f (snd e) else []) kn)
           = f (getRepeated (DynamicMessage kn un) n)"
  using assms(1)
proof (induction kn)
  case Nil
  show ?case by (simp add: getRepeated_def assms(2))
next
  case (Cons e kn)
  show ?case
  proof (cases "fst e = n")
    case True
    with Cons.prems have "n \<notin> fst ` set kn" by auto
    from concat_no_entry [OF this, of f] True show ?thesis
      by (cases e) (simp add: getRepeated_def)
  next
    case False
    with Cons show ?thesis by (cases e) (simp add: getRepeated_def)
  qed
qed

lemma encode_message_fields:
  assumes "distinct (map fst kn)"
  shows "encode_message repo desc (DynamicMessage kn []) =
     concat (map (\<lambda>fd. concat (map (\<lambda>v. encode_tag (fd_number fd) (wire_type (fd_kind fd))
                                        @ encode_value repo (fd_kind fd) v)
                                 (getRepeated (DynamicMessage kn []) (fd_number fd))))
              (md_fields desc))"
proof -
  have h: "concat (map (\<lambda>e. if fst e = fd_number fd
                          then concat (map (\<lambda>v. encode_tag (fd_number fd) (wire_type (fd_kind fd))
                                                  @ encode_value repo (fd_kind fd) v) (snd e))
                          else []) kn)
        = concat (map (\<lambda>v. encode_tag (fd_number fd) (wire_type (fd_kind fd))
                              @ encode_value repo (fd_kind fd) v)
                   (getRepeated (DynamicMessage kn []) (fd_number fd)))" for fd
    using concat_entries [OF assms, where n = "fd_number fd" and un = "[]"
        and f = "\<lambda>vs. concat (map (\<lambda>v. encode_tag (fd_number fd) (wire_type (fd_kind fd))
                                           @ encode_value repo (fd_kind fd) v) vs)"]
    by simp
  show ?thesis unfolding encode_message.simps h by simp
qed

lemma length_concat_member:
  "x \<in> set xs \<Longrightarrow> length (f x) \<le> length (concat (map f xs))"
  by (induction xs) auto

lemma entry_is_getRepeated:
  "distinct (map fst kn) \<Longrightarrow> e \<in> set kn \<Longrightarrow> getRepeated (DynamicMessage kn un) (fst e) = snd e"
  by (cases e) (simp add: getRepeated_def)

text \<open>When the equivalence checker finds no difference.\<close>

lemma diff_values_nil:
  "list_all2 (\<lambda>v v'. \<forall>path. diff_value path v v' = []) vs vs' \<Longrightarrow> diff_values path vs vs' = []"
  by (induction vs vs' rule: list_all2_induct) simp_all

lemma diff_message_nil:
  assumes "distinct (map fst kn)" and "distinct (map fst (known b))" and "un = unknown b"
    and "\<And>n. list_all2 (\<lambda>v v'. \<forall>path. diff_value path v v' = [])
               (getRepeated (DynamicMessage kn un) n) (getRepeated b n)"
  shows "diff_message path (DynamicMessage kn un) b = []"
proof -
  have 1: "(if length (snd e) \<noteq> length (getRepeated b (fst e))
            then [FieldDiff (path @ [fst e]) (snd e) (getRepeated b (fst e))]
            else diff_values (path @ [fst e]) (snd e) (getRepeated b (fst e))) = []"
    if "e \<in> set kn" for e
  proof -
    from entry_is_getRepeated [OF assms(1) that, of un] assms(4) [of "fst e"]
    have l: "list_all2 (\<lambda>v v'. \<forall>path. diff_value path v v' = []) (snd e) (getRepeated b (fst e))"
      by simp
    from list_all2_lengthD [OF l] diff_values_nil [OF l] show ?thesis by simp
  qed
  have 2: "(if map_of kn (fst e) = None \<and> snd e \<noteq> []
            then [FieldDiff (path @ [fst e]) [] (snd e)] else []) = []"
    if "e \<in> set (known b)" for e
  proof (cases "map_of kn (fst e)")
    case None
    then have "getRepeated (DynamicMessage kn un) (fst e) = []" by (simp add: getRepeated_def)
    with assms(4) [of "fst e"] have "getRepeated b (fst e) = []" by simp
    moreover have "getRepeated b (fst e) = snd e"
      using entry_is_getRepeated [OF assms(2) that, of "unknown b"] by simp
    ultimately show ?thesis by simp
  next
    case (Some vs)
    then show ?thesis by simp
  qed
  show ?thesis
    using 1 2 assms(3) by simp
qed


text \<open>One value written and read back.\<close>

lemma has_kind_scalar:
  "value_has_kind k v \<Longrightarrow> (\<And>m. v \<noteq> VMessage m) \<Longrightarrow> nested_descriptor k = None"
  by (cases v; cases k) (auto split: if_splits)

lemma diff_value_same: "(\<And>m. v \<noteq> VMessage m) \<Longrightarrow> diff_value path v v = []"
  by (cases v) auto

lemma valid_descriptor_at:
  "list_all valid_descriptor repo \<Longrightarrow> valid_descriptor (descriptor_at repo i)"
  by (simp add: descriptor_at_def list_all_length valid_descriptor_def)

lemma find_field_member:
  assumes "valid_descriptor desc" and "fd \<in> set (md_fields desc)"
  shows "find_field desc (fd_number fd) = Some fd" and "fd_number fd < 2 ^ 61"
proof -
  from assms have d: "distinct (map fd_number (md_fields desc))"
    by (simp add: valid_descriptor_def)
  have "find (\<lambda>x. fd_number x = fd_number fd) fds = Some fd"
    if "distinct (map fd_number fds)" and "fd \<in> set fds" for fds
    using that by (induction fds) auto
  from this [OF d assms(2)] show "find_field desc (fd_number fd) = Some fd"
    by (simp add: find_field_def)
  from assms show "fd_number fd < 2 ^ 61"
    by (simp add: valid_descriptor_def list_all_iff)
qed

lemma find_field_Some:
  "find_field desc n = Some fd \<Longrightarrow> fd \<in> set (md_fields desc) \<and> fd_number fd = n"
  by (auto simp: find_field_def find_Some_iff)

lemma scalar_item:
  assumes "value_has_kind k v" and "nested_descriptor k = None"
    and "length (encode_value repo k v) \<le> ceiling" and "ceiling < 2 ^ 64"
    and "fd_kind fd = k" and "find_field desc (fd_number fd) = Some fd"
    and "fd_number fd < 2 ^ 61"
  shows "decode_fields repo ceiling desc
           (encode_tag (fd_number fd) (wire_type k) @ encode_value repo k v @ rest) acc
         = decode_fields repo ceiling desc rest (stored fd v acc)"
proof -
  from scalar_split [OF assms(1-4), of rest] obtain p where
    p: "split_payload ceiling (wire_type k) (encode_value repo k v @ rest)
          = Inr (encode_value repo k v, p, rest)" and s: "scalar_value k p = v"
    by blast
  from p assms(5) have p': "split_payload ceiling (wire_type (fd_kind fd))
      (encode_value repo k v @ rest) = Inr (encode_value repo k v, p, rest)" by simp
  from decode_item [OF assms(6,7) p', of repo acc] assms(1,2,5) s
    store_value_stored [OF assms(6), of v acc]
  show ?thesis by simp
qed

lemma message_item:
  assumes "nested_descriptor k = Some i"
    and "length (encode_value repo k (VMessage m)) \<le> ceiling" and "ceiling < 2 ^ 64"
    and "fd_kind fd = k" and "find_field desc (fd_number fd) = Some fd"
    and "fd_number fd < 2 ^ 61"
    and "decode_fields repo ceiling (descriptor_at repo i)
           (encode_message repo (descriptor_at repo i) m) (DynamicMessage [] []) = Inr m'"
  shows "decode_fields repo ceiling desc
           (encode_tag (fd_number fd) (wire_type k) @ encode_value repo k (VMessage m) @ rest) acc
         = decode_fields repo ceiling desc rest (stored fd (VMessage m') acc)"
proof -
  from message_split [OF assms(1-3), of rest] assms(4)
  have p: "split_payload ceiling (wire_type (fd_kind fd))
      (encode_value repo k (VMessage m) @ rest)
      = Inr (encode_value repo k (VMessage m),
             PBytes (encode_message repo (descriptor_at repo i) m), rest)" by simp
  have h: "value_has_kind (fd_kind fd) (VMessage m')" using assms(1,4) by simp
  from decode_item [OF assms(5,6) p, of repo acc] assms(1,4,7)
    store_value_stored [OF assms(5) h, of acc]
  show ?thesis by simp
qed

lemma list_all2_exists:
  "(\<And>x. x \<in> set xs \<Longrightarrow> \<exists>y. R x y) \<Longrightarrow> \<exists>ys. list_all2 R xs ys"
proof (induction xs)
  case Nil
  show ?case by simp
next
  case (Cons x xs)
  from Cons.prems [of x] obtain y where "R x y" by auto
  moreover from Cons.IH Cons.prems obtain ys where "list_all2 R xs ys" by auto
  ultimately have "list_all2 R (x # xs) (y # ys)" by simp
  then show ?case by blast
qed


text \<open>A message written and read back, given that its values are.\<close>

lemma getRepeated_empty: "getRepeated (DynamicMessage [] un) n = []"
  by (simp add: getRepeated_def)

lemma message_roundtrip:
  assumes c: "ceiling < 2 ^ 64"
    and wf: "wf_message repo desc (DynamicMessage kn un)"
    and vd: "valid_descriptor desc"
    and len: "length (encode_message repo desc (DynamicMessage kn un)) \<le> ceiling"
    and IH: "\<And>e fd v. e \<in> set kn \<Longrightarrow> find_field desc (fst e) = Some fd \<Longrightarrow> v \<in> set (snd e) \<Longrightarrow>
        wf_value repo (fd_kind fd) v \<Longrightarrow> length (encode_value repo (fd_kind fd) v) \<le> ceiling \<Longrightarrow>
        \<exists>v'. value_has_kind (fd_kind fd) v' \<and> (\<forall>path. diff_value path v v' = [])
           \<and> (\<forall>desc' fd' rest acc.
                 fd_kind fd' = fd_kind fd \<longrightarrow> find_field desc' (fd_number fd') = Some fd' \<longrightarrow>
                 fd_number fd' < 2 ^ 61 \<longrightarrow>
                 decode_fields repo ceiling desc'
                   (encode_tag (fd_number fd') (wire_type (fd_kind fd))
                    @ encode_value repo (fd_kind fd) v @ rest) acc
                 = decode_fields repo ceiling desc' rest (stored fd' v' acc))"
  shows "\<exists>m'. decode_fields repo ceiling desc (encode_message repo desc (DynamicMessage kn un))
                 (DynamicMessage [] []) = Inr m'
              \<and> (\<forall>path. diff_message path (DynamicMessage kn un) m' = [])"
proof -
  from wf have un: "un = []" and dk: "distinct (map fst kn)" by simp_all
  from wf have ent: "\<exists>fd. find_field desc (fst e) = Some fd
      \<and> (fd_cardinality fd = Repeated \<or> length (snd e) \<le> 1)
      \<and> (\<forall>v \<in> set (snd e). wf_value repo (fd_kind fd) v)" if "e \<in> set kn" for e
    using that by (auto simp: list_all_iff split: option.splits)
  let ?m = "DynamicMessage kn []"
  let ?vals = "\<lambda>fd. getRepeated ?m (fd_number fd)"
  let ?enc = "\<lambda>fd v. encode_tag (fd_number fd) (wire_type (fd_kind fd))
                      @ encode_value repo (fd_kind fd) v"
  let ?R = "\<lambda>fd v v'. value_has_kind (fd_kind fd) v' \<and> (\<forall>path. diff_value path v v' = [])
      \<and> (\<forall>rest acc. decode_fields repo ceiling desc (?enc fd v @ rest) acc
                       = decode_fields repo ceiling desc rest (stored fd v' acc))"
  have em: "encode_message repo desc ?m
      = concat (map (\<lambda>fd. concat (map (?enc fd) (?vals fd))) (md_fields desc))"
    by (rule encode_message_fields [OF dk])
  have entry: "(fd_number fd, ?vals fd) \<in> set kn" if "?vals fd \<noteq> []" for fd
    using that by (auto simp: getRepeated_def split: option.splits dest: map_of_SomeD)
  have R: "\<exists>v'. ?R fd v v'" if fd: "fd \<in> set (md_fields desc)" and v: "v \<in> set (?vals fd)"
    for fd v
  proof -
    from v have ne: "?vals fd \<noteq> []" by auto
    note e = entry [OF ne]
    note ff = find_field_member [OF vd fd]
    from ent [OF e] ff(1) v have wv: "wf_value repo (fd_kind fd) v" by auto
    have "length (encode_value repo (fd_kind fd) v) \<le> length (?enc fd v)" by simp
    also have "\<dots> \<le> length (concat (map (?enc fd) (?vals fd)))"
      using length_concat_member [OF v, of "?enc fd"] .
    also have "\<dots> \<le> length (encode_message repo desc ?m)"
      unfolding em
      using length_concat_member [OF fd, of "\<lambda>fd. concat (map (?enc fd) (?vals fd))"] .
    finally have l: "length (encode_value repo (fd_kind fd) v) \<le> ceiling"
      using len un by simp
    have f: "find_field desc (fst (fd_number fd, ?vals fd)) = Some fd" using ff(1) by simp
    have m: "v \<in> set (snd (fd_number fd, ?vals fd))" using v by simp
    from IH [OF e f m wv l] obtain v' where
      1: "value_has_kind (fd_kind fd) v'" and 2: "\<forall>path. diff_value path v v' = []" and
      3: "\<forall>desc' fd' rest acc.
                 fd_kind fd' = fd_kind fd \<longrightarrow> find_field desc' (fd_number fd') = Some fd' \<longrightarrow>
                 fd_number fd' < 2 ^ 61 \<longrightarrow>
                 decode_fields repo ceiling desc'
                   (encode_tag (fd_number fd') (wire_type (fd_kind fd))
                    @ encode_value repo (fd_kind fd) v @ rest) acc
                 = decode_fields repo ceiling desc' rest (stored fd' v' acc)"
      by blast
    from 3 ff have "\<forall>rest acc. decode_fields repo ceiling desc (?enc fd v @ rest) acc
                       = decode_fields repo ceiling desc rest (stored fd v' acc)"
      by simp
    with 1 2 show ?thesis by blast
  qed
  have "\<forall>fd \<in> set (md_fields desc). \<exists>vs'. list_all2 (?R fd) (?vals fd) vs'"
    using R by (intro ballI list_all2_exists) blast
  then obtain vals' where
    vals': "\<forall>fd \<in> set (md_fields desc). list_all2 (?R fd) (?vals fd) (vals' fd)"
    by (auto dest: bchoice)
  have dec: "\<forall>fd \<in> set (md_fields desc). list_all2 (\<lambda>v v'. \<forall>rest acc.
      decode_fields repo ceiling desc
        (encode_tag (fd_number fd) (wire_type (fd_kind fd)) @ encode_value repo (fd_kind fd) v
         @ rest) acc
      = decode_fields repo ceiling desc rest (stored fd v' acc)) (?vals fd) (vals' fd)"
    using vals' by (auto elim!: list_all2_mono)
  define m' where
    "m' = foldl (\<lambda>m fd. foldl (\<lambda>m v'. stored fd v' m) m (vals' fd)) (DynamicMessage [] [])
            (md_fields desc)"
  have d: "decode_fields repo ceiling desc (encode_message repo desc ?m) (DynamicMessage [] [])
             = Inr m'"
    unfolding em
    using decode_field_list [OF dec, of "[]" "DynamicMessage [] []"]
    by (simp add: m'_def decode_fields.simps [of _ _ _ "[]"])
  have k: "distinct (map fst (known m'))" "unknown m' = []"
    by (simp_all add: m'_def fold_fields_known)
  from vd have dn: "distinct (map fd_number (md_fields desc))"
    by (simp add: valid_descriptor_def)
  have g: "list_all2 (\<lambda>v v'. \<forall>path. diff_value path v v' = [])
             (getRepeated ?m n) (getRepeated m' n)" for n
  proof (cases "find_field desc n")
    case None
    have "getRepeated ?m n = []"
    proof (cases "map_of kn n")
      case None
      then show ?thesis by (simp add: getRepeated_def)
    next
      case (Some vs)
      then have "(n, vs) \<in> set kn" by (rule map_of_SomeD)
      from ent [OF this] \<open>find_field desc n = None\<close> show ?thesis by simp
    qed
    moreover from None have "getRepeated m' n = []"
      by (simp add: m'_def fold_fields_get [OF dn] find_field_def getRepeated_empty)
    ultimately show ?thesis by simp
  next
    case (Some fd)
    from find_field_Some [OF Some] have fd: "fd \<in> set (md_fields desc)" and n: "fd_number fd = n"
      by simp_all
    from vals' fd have l: "list_all2 (?R fd) (?vals fd) (vals' fd)" by blast
    have s: "fd_cardinality fd = Repeated \<or> length (vals' fd) \<le> 1"
    proof (cases "?vals fd = []")
      case True
      with l show ?thesis by simp
    next
      case False
      from ent [OF entry [OF False]] find_field_member(1) [OF vd fd]
      have "fd_cardinality fd = Repeated \<or> length (?vals fd) \<le> 1" by auto
      with list_all2_lengthD [OF l] show ?thesis by simp
    qed
    have "getRepeated m' n = vals' fd"
    proof (cases "vals' fd")
      case Nil
      with Some show ?thesis
        by (simp add: m'_def fold_fields_get [OF dn] find_field_def getRepeated_empty)
    next
      case (Cons a as)
      with s have "fd_cardinality fd = Repeated \<or> as = []" by simp
      with Some Cons show ?thesis
        by (auto simp: m'_def fold_fields_get [OF dn] find_field_def getRepeated_empty)
    qed
    with l n show ?thesis by (auto elim!: list_all2_mono)
  qed
  have "diff_message path ?m m' = []" for path
    using diff_message_nil [OF dk k(1), of "[]" path] k(2) g by simp
  with d un show ?thesis by blast
qed


text \<open>The round trip, by induction on the message.\<close>

lemma scalar_roundtrip:
  assumes "ceiling < 2 ^ 64" and "value_has_kind k v" and "\<And>m. v \<noteq> VMessage m"
    and "length (encode_value repo k v) \<le> ceiling"
  shows "\<exists>v'. value_has_kind k v' \<and> (\<forall>path. diff_value path v v' = [])
           \<and> (\<forall>desc fd rest acc.
                 fd_kind fd = k \<longrightarrow> find_field desc (fd_number fd) = Some fd \<longrightarrow>
                 fd_number fd < 2 ^ 61 \<longrightarrow>
                 decode_fields repo ceiling desc
                   (encode_tag (fd_number fd) (wire_type k) @ encode_value repo k v @ rest) acc
                 = decode_fields repo ceiling desc rest (stored fd v' acc))"
  using assms(2) diff_value_same [OF assms(3)]
    scalar_item [OF assms(2) has_kind_scalar [OF assms(2,3)] assms(4,1)]
  by (intro exI [of _ v]) simp

lemma roundtrip_induct:
  fixes ceiling :: nat
  assumes c: "ceiling < 2 ^ 64"
  shows "wf_value repo k v \<Longrightarrow> list_all valid_descriptor repo \<Longrightarrow>
         length (encode_value repo k v) \<le> ceiling \<Longrightarrow>
         \<exists>v'. value_has_kind k v' \<and> (\<forall>path. diff_value path v v' = [])
           \<and> (\<forall>desc fd rest acc.
                 fd_kind fd = k \<longrightarrow> find_field desc (fd_number fd) = Some fd \<longrightarrow>
                 fd_number fd < 2 ^ 61 \<longrightarrow>
                 decode_fields repo ceiling desc
                   (encode_tag (fd_number fd) (wire_type k) @ encode_value repo k v @ rest) acc
                 = decode_fields repo ceiling desc rest (stored fd v' acc))"
    and "wf_message repo desc m \<Longrightarrow> list_all valid_descriptor repo \<Longrightarrow>
         valid_descriptor desc \<Longrightarrow> length (encode_message repo desc m) \<le> ceiling \<Longrightarrow>
         \<exists>m'. decode_fields repo ceiling desc (encode_message repo desc m)
                 (DynamicMessage [] []) = Inr m'
              \<and> (\<forall>path. diff_message path m m' = [])"
proof (induction repo k v and repo desc m rule: wf_value_wf_message.induct, goal_cases)
  case (1 repo k m)
  note IH = 1(1) and prems = 1(2-4)
  from prems(1) obtain i where i: "nested_descriptor k = Some i"
    and w: "wf_message repo (descriptor_at repo i) m"
    by (auto split: option.splits)
  have "length (encode_message repo (descriptor_at repo i) m)
          \<le> length (encode_value repo k (VMessage m))"
    using i by (simp add: Let_def)
  with prems(3) have l: "length (encode_message repo (descriptor_at repo i) m) \<le> ceiling"
    by simp
  from IH [OF i w prems(2) valid_descriptor_at [OF prems(2)] l]
  obtain m' where d: "decode_fields repo ceiling (descriptor_at repo i)
      (encode_message repo (descriptor_at repo i) m) (DynamicMessage [] []) = Inr m'"
    and e: "\<forall>path. diff_message path m m' = []"
    by blast
  have "value_has_kind k (VMessage m')" using i by simp
  moreover have "\<forall>path. diff_value path (VMessage m) (VMessage m') = []" using e by simp
  moreover have "\<forall>desc fd rest acc.
                 fd_kind fd = k \<longrightarrow> find_field desc (fd_number fd) = Some fd \<longrightarrow>
                 fd_number fd < 2 ^ 61 \<longrightarrow>
                 decode_fields repo ceiling desc
                   (encode_tag (fd_number fd) (wire_type k) @ encode_value repo k (VMessage m)
                    @ rest) acc
                 = decode_fields repo ceiling desc rest (stored fd (VMessage m') acc)"
    using message_item [OF i prems(3) c _ _ _ d] by blast
  ultimately show ?case by blast
next
  case (2 repo k va)
  then show ?case using scalar_roundtrip [OF c, of k "VInt va" repo] by simp
next
  case (3 repo k va)
  then show ?case using scalar_roundtrip [OF c, of k "VBool va" repo] by simp
next
  case (4 repo k va)
  then show ?case using scalar_roundtrip [OF c, of k "VFloat va" repo] by simp
next
  case (5 repo k va)
  then show ?case using scalar_roundtrip [OF c, of k "VDouble va" repo] by simp
next
  case (6 repo k va)
  then show ?case using scalar_roundtrip [OF c, of k "VString va" repo] by simp
next
  case (7 repo k va)
  then show ?case using scalar_roundtrip [OF c, of k "VBytes va" repo] by simp
next
  case (8 repo desc kn un)
  note IH = 8(1) and prems = 8(2-5)
  show ?case
  proof (rule message_roundtrip [OF c prems(1,3,4)])
    fix e fd v
    assume "e \<in> set kn" "find_field desc (fst e) = Some fd" "v \<in> set (snd e)"
      "wf_value repo (fd_kind fd) v" "length (encode_value repo (fd_kind fd) v) \<le> ceiling"
    from IH [OF this(1,2,3,4) prems(2) this(5)]
    show "\<exists>v'. value_has_kind (fd_kind fd) v' \<and> (\<forall>path. diff_value path v v' = [])
           \<and> (\<forall>desc' fd' rest acc.
                 fd_kind fd' = fd_kind fd \<longrightarrow> find_field desc' (fd_number fd') = Some fd' \<longrightarrow>
                 fd_number fd' < 2 ^ 61 \<longrightarrow>
                 decode_fields repo ceiling desc'
                   (encode_tag (fd_number fd') (wire_type (fd_kind fd))
                    @ encode_value repo (fd_kind fd) v @ rest) acc
                 = decode_fields repo ceiling desc' rest (stored fd' v' acc))" .
  qed
qed


text \<open>What the text parser accepts keeps the invariants of a DynamicMessage.\<close>

lemma set_put_values: "set (put_values n vs kn) \<subseteq> insert (n, vs) (set kn)"
  by (induction kn) auto

lemma wf_stored:
  assumes "wf_message repo desc m" and "find_field desc (fd_number fd) = Some fd"
    and "wf_value repo (fd_kind fd) v"
  shows "wf_message repo desc (stored fd v m)"
proof (cases m)
  case (DynamicMessage kn un)
  let ?n = "fd_number fd"
  let ?vs = "if fd_cardinality fd = Repeated
             then getRepeated (DynamicMessage kn un) ?n @ [v] else [v]"
  from assms(1) DynamicMessage have un: "un = []" and dk: "distinct (map fst kn)"
    and ent: "\<And>e. e \<in> set kn \<Longrightarrow> (case find_field desc (fst e) of
             None \<Rightarrow> False
           | Some fd \<Rightarrow>
               (fd_cardinality fd = Repeated \<or> length (snd e) \<le> 1)
               \<and> list_all (wf_value repo (fd_kind fd)) (snd e))"
    by (simp_all add: list_all_iff)
  have old: "list_all (wf_value repo (fd_kind fd)) (getRepeated (DynamicMessage kn un) ?n)"
  proof (cases "map_of kn ?n")
    case None
    then show ?thesis by (simp add: getRepeated_def)
  next
    case (Some vs)
    then have "(?n, vs) \<in> set kn" by (rule map_of_SomeD)
    from ent [OF this] assms(2) Some show ?thesis
      by (simp add: getRepeated_def)
  qed
  have new: "(case find_field desc (fst e) of
             None \<Rightarrow> False
           | Some fd \<Rightarrow>
               (fd_cardinality fd = Repeated \<or> length (snd e) \<le> 1)
               \<and> list_all (wf_value repo (fd_kind fd)) (snd e))"
    if "e \<in> set (put_values ?n ?vs kn)" for e
  proof (cases "e = (?n, ?vs)")
    case True
    with assms(2,3) old show ?thesis by simp
  next
    case False
    with that set_put_values [of ?n ?vs kn] have "e \<in> set kn" by auto
    from ent [OF this] show ?thesis .
  qed
  have "wf_message repo desc (DynamicMessage (put_values ?n ?vs kn) un)"
    using un distinct_put_values [OF dk, of ?n ?vs] new
    by (simp add: list_all_iff del: put_values.simps)
  then show ?thesis
    using DynamicMessage un by (cases "fd_cardinality fd") (simp_all add: stored_def)
qed

lemma store_value_result:
  assumes "store_value desc fd v m = Inr m'" and "find_field desc (fd_number fd) = Some fd"
  shows "m' = stored fd v m" and "value_has_kind (fd_kind fd) v"
  using assms
  by (cases "fd_cardinality fd";
      simp add: store_value_def setField_def appendRepeated_def stored_def split: if_splits)+

lemma wf_value_scalar:
  "value_has_kind k v \<Longrightarrow> (\<And>sub. v \<noteq> VMessage sub) \<Longrightarrow> wf_value repo k v"
  by (cases v) auto

lemma value_of_literal_scalar: "value_of_literal cv k lit = Inr v \<Longrightarrow> v \<noteq> VMessage sub"
  by (cases lit) (auto split: if_splits option.splits)

lemma find_field_named_member:
  "find_field_named desc name = Some fd \<Longrightarrow> fd \<in> set (md_fields desc)"
  by (auto simp: find_field_named_def find_Some_iff)

lemma parse_fields_wf:
  "parse_fields repo cv stack desc m ts = Inr r \<Longrightarrow> valid_descriptor desc \<Longrightarrow>
   wf_message repo desc m \<Longrightarrow> frames_ok repo desc stack \<Longrightarrow>
   list_all valid_descriptor repo \<Longrightarrow>
   wf_message repo (root_descriptor desc stack) r"
proof (induction repo cv stack desc m ts rule: parse_fields.induct)
  case (1 repo cv stack desc m)
  then show ?case by (cases stack) (simp_all split: if_splits)
next
  case (2 repo cv stack desc m name ts)
  from "2.prems"(1) obtain fd where fd: "find_field_named desc name = Some fd"
    by (auto split: option.splits)
  note mem = find_field_named_member [OF fd]
  note ff = find_field_member [OF "2.prems"(2) mem]
  show ?case
  proof (cases ts)
    case Nil
    with "2.prems"(1) fd show ?thesis by simp
  next
    case (Cons t ts1)
    show ?thesis
    proof (cases t)
      case TColon
      show ?thesis
      proof (cases ts1)
        case Nil
        with "2.prems"(1) fd Cons TColon show ?thesis by simp
      next
        case (Cons lit ts2)
        note ts = \<open>ts = t # ts1\<close> TColon Cons
        from "2.prems"(1) fd ts obtain v where v: "value_of_literal cv (fd_kind fd) lit = Inr v"
          by (auto split: sum.splits)
        with "2.prems"(1) fd ts obtain m' where s: "store_value desc fd v m = Inr m'"
          by (auto split: sum.splits)
        from store_value_result [OF s ff(1)] have m': "m' = stored fd v m"
          and k: "value_has_kind (fd_kind fd) v" by simp_all
        have "wf_value repo (fd_kind fd) v"
          using wf_value_scalar [OF k] value_of_literal_scalar [OF v] by blast
        from wf_stored [OF "2.prems"(3) ff(1) this] m' have w: "wf_message repo desc m'" by simp
        from "2.prems"(1) fd ts v s have p: "parse_fields repo cv stack desc m' ts2 = Inr r"
          by simp
        from "2.IH"(1) [OF fd ts(1) ts(2) ts(3) v s p "2.prems"(2) w "2.prems"(4,5)]
        show ?thesis .
      qed
    next
      case TLBrace
      note ts = \<open>ts = t # ts1\<close> TLBrace
      from "2.prems"(1) fd ts obtain i where i: "nested_descriptor (fd_kind fd) = Some i"
        by (auto split: option.splits)
      with "2.prems"(1) fd ts have p: "parse_fields repo cv ((desc, m, fd) # stack)
          (descriptor_at repo i) (DynamicMessage [] []) ts1 = Inr r" by simp
      have f: "frames_ok repo (descriptor_at repo i) ((desc, m, fd) # stack)"
        using "2.prems"(2,3,4) mem i by simp
      from "2.IH"(2) [OF fd ts(1) ts(2) i p valid_descriptor_at [OF "2.prems"(5)] _ f
          "2.prems"(5)]
      show ?thesis by simp
    qed (use "2.prems"(1) fd Cons in simp_all)
  qed
next
  case (3 repo cv stack desc m ts)
  from "3.prems"(1) obtain pdesc pm fd stack' where st: "stack = (pdesc, pm, fd) # stack'"
    by (cases stack) (auto split: list.splits)
  with "3.prems"(1) obtain pm' where s: "store_value pdesc fd (VMessage m) pm = Inr pm'"
    by (auto split: sum.splits)
  from "3.prems"(4) st have vd: "valid_descriptor pdesc" and wp: "wf_message repo pdesc pm"
    and mem: "fd \<in> set (md_fields pdesc)"
    and i: "nested_descriptor (fd_kind fd) \<noteq> None"
    and d: "desc = descriptor_at repo (the (nested_descriptor (fd_kind fd)))"
    and f: "frames_ok repo pdesc stack'"
    by simp_all
  note ff = find_field_member [OF vd mem]
  from i d "3.prems"(3) have wv: "wf_value repo (fd_kind fd) (VMessage m)" by auto
  from store_value_result(1) [OF s ff(1)] wf_stored [OF wp ff(1) wv]
  have w: "wf_message repo pdesc pm'" by simp
  from "3.prems"(1) st s have p: "parse_fields repo cv stack' pdesc pm' ts = Inr r" by simp
  from "3.IH" [OF st refl refl s p vd w f "3.prems"(5)] st show ?case by simp
qed simp_all


text \<open>The round trip of the messages the text parser accepts.\<close>

lemma parseText_wf:
  assumes "valid_schema repo desc" and "parseText repo cv desc input = Inr m"
  shows "wf_message repo desc m"
  using parse_fields_wf [of repo cv "[]" desc "DynamicMessage [] []" "lex Idle input" m] assms
  by (simp add: parseText_def valid_schema_def)

lemma codec_roundtrip:
  assumes "valid_schema repo desc" and "ceiling < 2 ^ 64"
    and "parseText repo cv desc input = Inr m"
    and "length (encodeBinary repo desc m) \<le> ceiling"
  shows "\<exists>m'. decodeBinary repo ceiling desc (encodeBinary repo desc m) = Inr m'
              \<and> compare m m' = Equal"
proof -
  from roundtrip_induct(2) [OF assms(2) parseText_wf [OF assms(1,3)]] assms(1,4)
  obtain m' where "decode_fields repo ceiling desc (encode_message repo desc m)
      (DynamicMessage [] []) = Inr m'" and "\<forall>path. diff_message path m m' = []"
    by (auto simp: valid_schema_def encodeBinary_def)
  then show ?thesis
    by (auto simp: decodeBinary_def encodeBinary_def compare_def)
qed

lemma engine_simps:
  "GetPrototype (engine repo cv ceiling describe lookup) d = (describe d \<noteq> None)"
  "TextFormat_ParseFromString (engine repo cv ceiling describe lookup) d input =
     (case describe d of
        None \<Rightarrow> None
      | Some desc \<Rightarrow>
          (case parseText repo cv desc input of Inl e \<Rightarrow> None | Inr m \<Rightarrow> Some (desc, m)))"
  "SerializeToString (engine repo cv ceiling describe lookup) dm
     = Some (encodeBinary repo (fst dm) (snd dm))"
  "ParseFromString (engine repo cv ceiling describe lookup) d buf =
     (case describe d of
        None \<Rightarrow> None
      | Some desc \<Rightarrow>
          (case decodeBinary repo ceiling desc buf of Inl e \<Rightarrow> None | Inr m \<Rightarrow> Some (desc, m)))"
  "MessageDifferencer_Equals (engine repo cv ceiling describe lookup) a b
     = (compare (snd a) (snd b) = Equal)"
  by (simp_all add: engine_def)


text \<open>A text of spaces only denotes the empty message.\<close>

lemma lex_spaces: "lex Idle (replicate n CHR '' '') = []"
  by (induction n) (simp_all add: lex_start_def is_space_def)

lemma parse_spaces:
  "parseText repo cv desc (replicate n CHR '' '') = Inr (DynamicMessage [] [])"
  by (simp add: parseText_def lex_spaces)

lemma encode_empty: "encodeBinary repo count_schema (DynamicMessage [] []) = []"
  by code_simp

lemma decode_empty: "decodeBinary repo ceiling desc [] = Inr (DynamicMessage [] [])"
  by (simp add: decodeBinary_def decode_fields.simps)

lemma compare_empty: "compare (DynamicMessage [] []) (DynamicMessage [] []) = Equal"
  by code_simp

text \<open>
  A text of many entries of a fixed-width field: what the text parser makes of it, how
  long its encoding is, and what the decoder answers to a length above its ceiling.
\<close>

lemma lex_entries:
  "lex Idle (concat (replicate n ''a:1 '') @ rest)
     = concat (replicate n [TWord ''a'', TColon, TWord ''1'']) @ lex Idle rest"
  by (induction n)
     (simp_all add: lex_start_def is_space_def is_word_char_def is_digit_def char_in_def)

lemma lex_bulk:
  "lex Idle (bulk_text n)
     = TWord ''c'' # TLBrace # concat (replicate n [TWord ''a'', TColon, TWord ''1''])
       @ [TRBrace]"
proof -
  have "lex Idle (bulk_text n)
      = TWord ''c'' # TLBrace # lex Idle (concat (replicate n ''a:1 '') @ ''}'')"
    by (simp add: bulk_text_def lex_start_def is_space_def is_word_char_def is_digit_def
        char_in_def)
  then show ?thesis
    by (simp add: lex_entries lex_start_def is_space_def)
qed


lemma bulk_fields:
  "find_field_named bulk_schema ''a''
     = Some \<lparr>fd_number = 1, fd_name = ''a'', fd_cardinality = Repeated, fd_kind = KFixed64\<rparr>"
  "find_field_named bulk_schema ''c''
     = Some \<lparr>fd_number = 2, fd_name = ''c'', fd_cardinality = Singular, fd_kind = KMessage 0\<rparr>"
  "find_field bulk_schema 1
     = Some \<lparr>fd_number = 1, fd_name = ''a'', fd_cardinality = Repeated, fd_kind = KFixed64\<rparr>"
  "find_field bulk_schema 2
     = Some \<lparr>fd_number = 2, fd_name = ''c'', fd_cardinality = Singular, fd_kind = KMessage 0\<rparr>"
  "descriptor_at [bulk_schema] 0 = bulk_schema"
  by (simp_all add: find_field_named_def find_field_def bulk_schema_def descriptor_at_def)

lemma one_literal: "value_of_literal cv KFixed64 (TWord ''1'') = Inr (VInt 1)"
  by code_simp

lemma parse_entry:
  "parse_fields [bulk_schema] cv stack bulk_schema (bulk_message k)
      (TWord ''a'' # TColon # TWord ''1'' # ts)
   = parse_fields [bulk_schema] cv stack bulk_schema (bulk_message (Suc k)) ts"
  by (simp add: bulk_fields one_literal store_value_def appendRepeated_def in_range_def
      getRepeated_def bulk_message_def replicate_append_same
      del: value_of_literal.simps One_nat_def)

lemma parse_entries:
  "parse_fields [bulk_schema] cv stack bulk_schema (bulk_message k)
      (concat (replicate n [TWord ''a'', TColon, TWord ''1'']) @ ts)
   = parse_fields [bulk_schema] cv stack bulk_schema (bulk_message (k + n)) ts"
  by (induction n arbitrary: k) (simp_all add: parse_entry del: parse_fields.simps)

lemma parse_bulk:
  "parseText [bulk_schema] cv bulk_schema (bulk_text n)
     = Inr (DynamicMessage [(2, [VMessage (bulk_message n)])] [])"
proof -
  have e: "DynamicMessage [] [] = bulk_message 0" by (simp add: bulk_message_def)
  have "parse_fields [bulk_schema] cv [] bulk_schema (DynamicMessage [] []) (lex Idle (bulk_text n))
      = parse_fields [bulk_schema] cv
          [(bulk_schema, DynamicMessage [] [],
            \<lparr>fd_number = 2, fd_name = ''c'', fd_cardinality = Singular, fd_kind = KMessage 0\<rparr>)]
          bulk_schema (bulk_message 0)
          (concat (replicate n [TWord ''a'', TColon, TWord ''1'']) @ [TRBrace])"
    by (simp add: lex_bulk bulk_fields e [symmetric])
  also have "\<dots> = parse_fields [bulk_schema] cv
          [(bulk_schema, DynamicMessage [] [],
            \<lparr>fd_number = 2, fd_name = ''c'', fd_cardinality = Singular, fd_kind = KMessage 0\<rparr>)]
          bulk_schema (bulk_message n) [TRBrace]"
    by (simp add: parse_entries del: parse_fields.simps)
  also have "\<dots> = Inr (DynamicMessage [(2, [VMessage (bulk_message n)])] [])"
    by (simp add: bulk_fields store_value_def setField_def)
  finally show ?thesis by (simp add: parseText_def)
qed


lemma encode_bulk_message:
  "encode_message [bulk_schema] bulk_schema (bulk_message n)
     = concat (replicate n (encode_tag 1 1 @ little_endian 8 1))"
  by (cases "n = 0") (simp_all add: bulk_message_def bulk_schema_def map_replicate_const
      del: little_endian.simps One_nat_def)

lemma length_bulk_message:
  "length (encode_message [bulk_schema] bulk_schema (bulk_message n)) = 9 * n"
proof -
  have "length (encode_tag 1 1) = 1"
    by (simp add: encode_tag_def encode_varint.simps)
  then show ?thesis
    by (simp add: encode_bulk_message length_concat_replicate del: One_nat_def)
qed

lemma bulk_md_fields:
  "md_fields bulk_schema =
     [\<lparr>fd_number = 1, fd_name = ''a'', fd_cardinality = Repeated, fd_kind = KFixed64\<rparr>,
      \<lparr>fd_number = 2, fd_name = ''c'', fd_cardinality = Singular, fd_kind = KMessage 0\<rparr>]"
  by (simp add: bulk_schema_def)

lemma encode_bulk:
  "encodeBinary [bulk_schema] bulk_schema (DynamicMessage [(2, [VMessage (bulk_message n)])] [])
     = encode_tag 2 2 @ encode_varint (int (9 * n))
       @ encode_message [bulk_schema] bulk_schema (bulk_message n)"
  by (simp add: encodeBinary_def bulk_md_fields bulk_fields length_bulk_message Let_def
      del: One_nat_def)

lemma decode_over_ceiling:
  assumes "n < 2 ^ 61" and "int ceiling < l" and "l < 2 ^ 64"
  shows "decodeBinary repo ceiling desc (encode_tag n 2 @ encode_varint l @ payload)
           = Inl (ResourceExceeded l)"
proof -
  have t: "decode_varint (encode_tag n 2 @ encode_varint l @ payload)
             = Inr (int n * 8 + 2, encode_varint l @ payload)"
    using decode_tag [OF assms(1), of 2] by simp
  have l: "decode_varint (encode_varint l @ payload) = Inr (l, payload)"
    using assms(2,3) by (intro decode_encode_varint) simp_all
  have ne: "encode_tag n 2 @ encode_varint l @ payload \<noteq> []"
    by (simp add: encode_tag_def encode_varint_nonempty)
  have m: "nat ((int n * 8 + 2) mod 8) = 2" by simp
  show ?thesis
    unfolding decodeBinary_def
    by (subst decode_fields.simps)
       (simp add: encode_varint_nonempty t m split_payload_def l assms(2))
qed


lemma read_whole:
  "s \<noteq> [] \<Longrightarrow> length s \<le> kMaxInputSize \<Longrightarrow> ReadAllFromFd [Data s] = Return s"
  by (simp add: ReadAllFromFd_def)

lemma length_bulk_text: "length (bulk_text n) = 4 * n + 3"
  by (simp add: bulk_text_def length_concat_replicate)

lemma bulk_valid: "valid_schema [bulk_schema] bulk_schema"
  by (simp add: valid_schema_def valid_descriptor_def bulk_schema_def)

lemma bulk_roundtrip:
  "length bulk_input = 46603383"
  "ReadAllFromFd [Data bulk_input] = Return bulk_input"
  "parseText [bulk_schema] no_float_text bulk_schema bulk_input
     = Inr (DynamicMessage [(2, [VMessage (bulk_message 11650845)])] [])"
  "decodeBinary [bulk_schema] kMaxInputSize bulk_schema
     (encodeBinary [bulk_schema] bulk_schema
        (DynamicMessage [(2, [VMessage (bulk_message 11650845)])] []))
     = Inl (ResourceExceeded 104857605)"
  "Roundtrip (engine [bulk_schema] no_float_text kMaxInputSize Some (\<lambda>name. None)) bulk_schema
     [Data bulk_input]
     = \<lparr>exit_code = 1, stdout = [], stderr = ''Failed to parse binary'' @ endl\<rparr>"
proof -
  show l: "length bulk_input = 46603383"
    by (simp add: bulk_input_def length_bulk_text)
  have "bulk_input \<noteq> []" using l by auto
  then show r: "ReadAllFromFd [Data bulk_input] = Return bulk_input"
    using l by (intro read_whole) (simp_all add: kMaxInputSize_def)
  show p: "parseText [bulk_schema] no_float_text bulk_schema bulk_input
     = Inr (DynamicMessage [(2, [VMessage (bulk_message 11650845)])] [])"
    by (simp add: bulk_input_def parse_bulk)
  show d: "decodeBinary [bulk_schema] kMaxInputSize bulk_schema
     (encodeBinary [bulk_schema] bulk_schema
        (DynamicMessage [(2, [VMessage (bulk_message 11650845)])] []))
     = Inl (ResourceExceeded 104857605)"
    unfolding encode_bulk
    using decode_over_ceiling [of 2 kMaxInputSize "int (9 * 11650845)" "[bulk_schema]"
        bulk_schema "encode_message [bulk_schema] bulk_schema (bulk_message 11650845)"]
    by (simp add: kMaxInputSize_def)
  show "Roundtrip (engine [bulk_schema] no_float_text kMaxInputSize Some (\<lambda>name. None))
     bulk_schema [Data bulk_input]
     = \<lparr>exit_code = 1, stdout = [], stderr = ''Failed to parse binary'' @ endl\<rparr>"
    by (simp add: Roundtrip_def r engine_simps p d failed_def)
qed

text \<open>The string field of \<open>note_schema\<close>, and the validity of the sample schemas.\<close>

lemma note_parse:
  "parseText repo cv note_schema note_text = Inr (DynamicMessage [(1, [VString ''abc''])] [])"
  by code_simp

lemma note_encode:
  "encodeBinary repo note_schema (DynamicMessage [(1, [VString ''abc''])] [])
     = [CHR 0x0A, CHR 0x03, CHR ''a'', CHR ''b'', CHR ''c'']"
  by code_simp

lemma note_decode:
  "decodeBinary repo 2 note_schema [CHR 0x0A, CHR 0x03, CHR ''a'', CHR ''b'', CHR ''c'']
     = Inl (ResourceExceeded 3)"
  by code_simp

lemma note_valid: "valid_schema [note_schema] note_schema"
  by (simp add: valid_schema_def valid_descriptor_def note_schema_def)

lemma count_valid: "valid_schema [count_schema] count_schema"
  by (simp add: valid_schema_def valid_descriptor_def count_schema_def)


text \<open>The self-referential schema \<open>node_schema\<close> and its text.\<close>

lemma node_valid: "valid_schema [node_schema] node_schema"
  by (simp add: valid_schema_def valid_descriptor_def node_schema_def)

lemma node_parse:
  "parseText [node_schema] cv node_schema node_text
     = Inr (DynamicMessage
              [(3, [VString ''z'']),
               (2, [VMessage (DynamicMessage
                      [(1, [VInt (- 2)]), (3, [VString ''x'', VString ''y''])] [])]),
               (1, [VInt 1])] [])"
  by code_simp

lemma node_encode:
  "encodeBinary [node_schema] node_schema
     (DynamicMessage
        [(3, [VString ''z'']),
         (2, [VMessage (DynamicMessage
                [(1, [VInt (- 2)]), (3, [VString ''x'', VString ''y''])] [])]),
         (1, [VInt 1])] [])
   = [CHR 0x08, CHR 0x01, CHR 0x12, CHR 0x11, CHR 0x08, CHR 0xFE, CHR 0xFF, CHR 0xFF, CHR 0xFF,
      CHR 0xFF, CHR 0xFF, CHR 0xFF, CHR 0xFF, CHR 0xFF, CHR 0x01, CHR 0x1A, CHR 0x01, CHR ''x'',
      CHR 0x1A, CHR 0x01, CHR ''y'', CHR 0x1A, CHR 0x01, CHR ''z'']"
  by code_simp



text \<open>The comparison of two messages that hold one floating-point field.\<close>

lemma compare_float:
  "(compare (DynamicMessage [(n, [VFloat x])] []) (DynamicMessage [(n, [VFloat y])] []) = Equal)
     = (x = y \<or> (is_nan32 x \<and> is_nan32 y))"
  by (auto simp: compare_def getRepeated_def split: list.splits)

lemma compare_double:
  "(compare (DynamicMessage [(n, [VDouble x])] []) (DynamicMessage [(n, [VDouble y])] []) = Equal)
     = (x = y \<or> (is_nan64 x \<and> is_nan64 y))"
  by (auto simp: compare_def getRepeated_def split: list.splits)

text \<open>
  Claim C5, on the equivalence checker of the specification (the harness calls the
  library's \<open>MessageDifferencer::Equals\<close>, whose sources are not in the repository). Two
  messages holding one float (or double) field are equal exactly when the two values have
  the same bits or are both NaN; a NaN on one side only makes them different.
\<close>

theorem C5_nan_equivalence:
  "((compare (DynamicMessage [(n, [VFloat x])] []) (DynamicMessage [(n, [VFloat y])] []) = Equal)
      = (x = y \<or> (is_nan32 x \<and> is_nan32 y)))
   \<and> ((compare (DynamicMessage [(n, [VDouble v])] []) (DynamicMessage [(n, [VDouble w])] [])
         = Equal)
      = (v = w \<or> (is_nan64 v \<and> is_nan64 w)))
   \<and> (is_nan32 x \<and> \<not> is_nan32 y \<longrightarrow>
        compare (DynamicMessage [(n, [VFloat x])] []) (DynamicMessage [(n, [VFloat y])] [])
          \<noteq> Equal)
   \<and> (is_nan64 v \<and> \<not> is_nan64 w \<longrightarrow>
        compare (DynamicMessage [(n, [VDouble v])] []) (DynamicMessage [(n, [VDouble w])] [])
          \<noteq> Equal)
   \<and> (MessageDifferencer_Equals (engine repo cv ceiling describe lookup)
          (desc, DynamicMessage [(n, [VFloat x])] []) (desc, DynamicMessage [(n, [VFloat y])] [])
      = (x = y \<or> (is_nan32 x \<and> is_nan32 y)))"
  using compare_float [of n x y] compare_double [of n v w]
  by (auto simp: engine_def)

text \<open>
  The theorem of claim C5 on two different NaN patterns (equal), on a NaN and 1.0
  (different), and on +0 and -0 (different: the comparison is on bits).
\<close>

theorem C5_nan_equivalence_witness:
  "compare (DynamicMessage [(1, [VFloat 0x7FC00000])] [])
           (DynamicMessage [(1, [VFloat 0xFFC00001])] []) = Equal
   \<and> compare (DynamicMessage [(1, [VFloat 0x7FC00000])] [])
             (DynamicMessage [(1, [VFloat 0x3F800000])] []) \<noteq> Equal
   \<and> compare (DynamicMessage [(1, [VFloat 0])] [])
             (DynamicMessage [(1, [VFloat 0x80000000])] []) \<noteq> Equal
   \<and> compare (DynamicMessage [(1, [VDouble 0x7FF8000000000000])] [])
             (DynamicMessage [(1, [VDouble 0x7FF0000000000001])] []) = Equal
   \<and> compare (DynamicMessage [(1, [VDouble 0x7FF8000000000000])] [])
             (DynamicMessage [(1, [VDouble 0x7FF0000000000000])] []) \<noteq> Equal"
proof -
  have n1: "is_nan32 0x7FC00000" "is_nan32 0xFFC00001" "\<not> is_nan32 0x3F800000"
    "\<not> is_nan32 0" "\<not> is_nan32 0x80000000"
    by (simp_all add: is_nan32_def)
  have n2: "is_nan64 0x7FF8000000000000" "is_nan64 0x7FF0000000000001"
    "\<not> is_nan64 0x7FF0000000000000"
    by (simp_all add: is_nan64_def)
  have ne: "(0 :: 32 word) \<noteq> 0x80000000"
    by simp
  show ?thesis
    using C5_nan_equivalence [of 1 "0x7FC00000" "0xFFC00001" "0x7FF8000000000000"
        "0x7FF0000000000001" "[]" no_float_text 0 Some "\<lambda>name. None" count_schema]
      C5_nan_equivalence [of 1 "0x7FC00000" "0x3F800000" "0x7FF8000000000000"
        "0x7FF0000000000000" "[]" no_float_text 0 Some "\<lambda>name. None" count_schema]
      C5_nan_equivalence [of 1 "0" "0x80000000" "0x7FF8000000000000"
        "0x7FF0000000000000" "[]" no_float_text 0 Some "\<lambda>name. None" count_schema]
      n1 n2 ne
    by blast
qed

text \<open>
  The theorem of claim C6 on \<open>cnt: 300\<close>, which names a field the scenario's schema does
  not define.
\<close>

theorem C6_text_parse_failure_witness:
  "TextFormat_ParseFromString count_engine count_schema ''cnt: 300'' = None
   \<and> Encode count_engine count_schema [Data ''cnt: 300'']
       = failed (''Failed to parse text format input'' @ endl)
   \<and> Encode_T count_engine count_schema [Data ''cnt: 300'']
       = failed (''Failed to parse text format input'' @ endl)
   \<and> exit_code (Encode count_engine count_schema [Data ''cnt: 300'']) = 1
   \<and> stdout (Encode count_engine count_schema [Data ''cnt: 300'']) = []"
proof -
  have p: "parseText repo cv count_schema ''cnt: 300'' = Inl UnknownFieldName" for repo cv
    by code_simp
  have h1: "TextFormat_ParseFromString count_engine count_schema (delivered [Data ''cnt: 300''])
              = None"
    by (simp add: p)
  have h2: "ReadAllFromFd [Data ''cnt: 300''] = Return (delivered [Data ''cnt: 300''])"
    by simp
  have h3: "GetPrototype count_engine count_schema"
    by simp
  from C6_text_parse_failure [of count_engine count_schema "[Data ''cnt: 300'']" mem_os
      "''in''" "env_of []" "''out''"] h1 h2 h3
  show ?thesis
    by (simp add: p failed_def)
qed

text \<open>
  The theorem of claim C7 on the name \<open>Missing\<close>, which the scenario's schema does not
  define, and on \<open>Counter\<close>, which it does.
\<close>

theorem C7_type_resolution_witness:
  "main_dynamic count_engine (sample_flags\<lparr>FLAGS_message := ''Missing''\<rparr>) [Data ''count: 300'']
     = \<lparr>exit_code = 1, stdout = [],
        stderr = ''Message not found: Missing'' @ endl
          @ ''Available messages in counter.proto:'' @ endl
          @ ''  Counter'' @ endl\<rparr>
   \<and> main_dynamic count_engine sample_flags [Data ''count: 300'']
     = \<lparr>exit_code = 0, stdout = [CHR 0x08, CHR 0xAC, CHR 0x02], stderr = []\<rparr>"
proof -
  have i: "Import count_engine (FLAGS_proto_path fl) (FLAGS_proto fl) = ([], Some [count_schema])"
    for fl
    by simp
  have f1: "FindMessageTypeByName count_engine [count_schema] ''Missing'' = None"
    by (simp add: count_engine_def engine_def resolve_def count_schema_def)
  have f2: "FindMessageTypeByName count_engine [count_schema] ''Counter'' = Some count_schema"
    by (simp add: count_engine_def engine_def resolve_def count_schema_def)
  have n: "message_type_names count_engine [count_schema] = [''Counter'']"
    by (simp add: count_engine_def engine_def count_schema_def)
  have e: "Encode count_engine count_schema [Data ''count: 300'']
             = \<lparr>exit_code = 0, stdout = [CHR 0x08, CHR 0xAC, CHR 0x02], stderr = []\<rparr>"
    by (simp add: Encode_def count_parse count_encode del: One_nat_def)
  show ?thesis
    using C7_type_resolution [of "sample_flags\<lparr>FLAGS_message := ''Missing''\<rparr>" count_engine
        "[]" "[count_schema]" "[Data ''count: 300'']"]
      C7_type_resolution [of sample_flags count_engine "[]" "[count_schema]"
        "[Data ''count: 300'']"]
      i f1 f2 n e
    by (simp add: sample_flags_def)
qed

lemma flaky_simps:
  "call_GetPrototype (flaky pb) d n = (GetPrototype pb d, n)"
  "call_TextFormat_ParseFromString (flaky pb) d input n =
     (if n = 0 then None else TextFormat_ParseFromString pb d input, Suc n)"
  "call_ParseFromString (flaky pb) d input n =
     (if n = 0 then None else ParseFromString pb d input, Suc n)"
  "call_SerializeToString (flaky pb) m n = (SerializeToString pb m, n)"
  by (simp_all add: flaky_def stateless_def)

lemma read_two:
  "ReadAllFromFd [Data ''count: '', Data ''300''] = Return ''count: 300''"
  "ReadAllFromFd [Data [CHR 0x08], Data [CHR 0xAC, CHR 0x02]]
     = Return [CHR 0x08, CHR 0xAC, CHR 0x02]"
  by (simp_all add: ReadAllFromFd_def kMaxInputSize_def)


section \<open>The batch driver's loop\<close>

text \<open>A test case writes its one file exactly when it succeeds.\<close>

lemma WriteFile_written:
  "WriteFile os path data e = (ok, e') \<Longrightarrow>
     written e' = written e @ (if ok then [(path, data)] else []) \<and> cout e' = cout e"
  by (auto simp: WriteFile_def Let_def split: option.splits)

lemma ProcessTestCase_written:
  assumes "ProcessTestCase os pb T tp bp e = (ok, e')"
  shows "(ok \<longrightarrow> (\<exists>b. written e' = written e @ [(bp, b)]))
         \<and> (\<not> ok \<longrightarrow> written e' = written e)"
proof -
  obtain content e1 where r: "ReadFile os tp e = (content, e1)"
    by (cases "ReadFile os tp e")
  then have w1: "written e1 = written e"
    by (auto simp: ReadFile_def split: option.splits)
  show ?thesis
  proof (cases "content = [] \<and> \<not> FileExists os tp e1")
    case True
    with assms r w1 show ?thesis by (auto simp: ProcessTestCase_def)
  next
    case False
    note nf = this
    show ?thesis
    proof (cases "TextFormat_ParseFromString pb T content")
      case None
      with assms r w1 nf show ?thesis by (auto simp: ProcessTestCase_def)
    next
      case (Some m)
      note pm = this
      show ?thesis
      proof (cases "SerializeToString pb m")
        case None
        with assms r w1 nf pm show ?thesis by (auto simp: ProcessTestCase_def)
      next
        case (Some b)
        obtain okw e2 where wf: "WriteFile os bp b e1 = (okw, e2)"
          by (cases "WriteFile os bp b e1")
        from WriteFile_written [OF wf] w1
        have w2: "written e2 = written e @ (if okw then [(bp, b)] else [])" by simp
        from assms r nf pm Some wf w2 show ?thesis
          by (cases okw) (auto simp: ProcessTestCase_def)
      qed
    qed
  qed
qed

text \<open>
  One turn of the loop: a line that is no test case changes neither counter; a test case
  raises exactly one of them, the success counter together with one written file.
\<close>

lemma body_not_case:
  "\<not> is_test_case line \<Longrightarrow>
     success_count (ProcessCategory_body os pb i out cat t line) = success_count t
     \<and> fail_count (ProcessCategory_body os pb i out cat t line) = fail_count t
     \<and> written (tally_env (ProcessCategory_body os pb i out cat t line)) = written (tally_env t)"
  by (auto simp: ProcessCategory_body_def is_test_case_def Let_def)

lemma body_case:
  assumes "is_test_case line"
  shows "(success_count (ProcessCategory_body os pb i out cat t line) = success_count t + 1
          \<and> fail_count (ProcessCategory_body os pb i out cat t line) = fail_count t
          \<and> (\<exists>b. written (tally_env (ProcessCategory_body os pb i out cat t line))
                 = written (tally_env t)
                   @ [(bin_path_of out cat (StrSplit line CHR '' '' ! 0), b)]))
       \<or> (success_count (ProcessCategory_body os pb i out cat t line) = success_count t
          \<and> fail_count (ProcessCategory_body os pb i out cat t line) = fail_count t + 1
          \<and> written (tally_env (ProcessCategory_body os pb i out cat t line))
                 = written (tally_env t))"
proof (cases "StrSplit line CHR '' '' ! 1 \<in> set conformance_messages")
  case False
  with assms show ?thesis
    by (auto simp: ProcessCategory_body_def is_test_case_def Let_def)
next
  case True
  obtain ok e' where p: "ProcessTestCase os pb (StrSplit line CHR '' '' ! 1)
      (textproto_path_of i cat (StrSplit line CHR '' '' ! 0))
      (bin_path_of out cat (StrSplit line CHR '' '' ! 0)) (tally_env t) = (ok, e')"
    by (cases "ProcessTestCase os pb (StrSplit line CHR '' '' ! 1)
      (textproto_path_of i cat (StrSplit line CHR '' '' ! 0))
      (bin_path_of out cat (StrSplit line CHR '' '' ! 0)) (tally_env t)")
  from ProcessTestCase_written [OF p] assms True p show ?thesis
    by (cases ok) (auto simp: ProcessCategory_body_def is_test_case_def Let_def)
qed

lemma body_unknown_type:
  assumes "is_test_case line" and "StrSplit line CHR '' '' ! 1 \<notin> set conformance_messages"
  shows "fail_count (ProcessCategory_body os pb i out cat t line) = fail_count t + 1"
  using assms by (auto simp: ProcessCategory_body_def is_test_case_def Let_def)

lemma body_fail_mono:
  "fail_count t \<le> fail_count (ProcessCategory_body os pb i out cat t line)"
  using body_case [of line os pb i out cat t] body_not_case [of line os pb i out cat t]
  by (cases "is_test_case line") auto

lemma loop_tally:
  "\<exists>arts.
     written (tally_env (foldl (ProcessCategory_body os pb i out cat) t lines))
       = written (tally_env t) @ arts
     \<and> success_count (foldl (ProcessCategory_body os pb i out cat) t lines)
         = success_count t + length arts
     \<and> success_count (foldl (ProcessCategory_body os pb i out cat) t lines)
         + fail_count (foldl (ProcessCategory_body os pb i out cat) t lines)
         = success_count t + fail_count t + length (test_cases lines)
     \<and> subseq (map fst arts) (map (\<lambda>c. bin_path_of out cat (fst c)) (test_cases lines))
     \<and> fail_count t
          + length (filter (\<lambda>c. snd c \<notin> set conformance_messages) (test_cases lines))
         \<le> fail_count (foldl (ProcessCategory_body os pb i out cat) t lines)"
proof (induction lines arbitrary: t)
  case Nil
  show ?case by (simp add: test_cases_def)
next
  case (Cons line lines)
  let ?t1 = "ProcessCategory_body os pb i out cat t line"
  let ?t2 = "foldl (ProcessCategory_body os pb i out cat) ?t1 lines"
  from Cons.IH [of ?t1] obtain arts where
    a1: "written (tally_env ?t2) = written (tally_env ?t1) @ arts" and
    a2: "success_count ?t2 = success_count ?t1 + length arts" and
    a3: "success_count ?t2 + fail_count ?t2
           = success_count ?t1 + fail_count ?t1 + length (test_cases lines)" and
    a4: "subseq (map fst arts) (map (\<lambda>c. bin_path_of out cat (fst c)) (test_cases lines))" and
    a5: "fail_count ?t1
           + length (filter (\<lambda>c. snd c \<notin> set conformance_messages) (test_cases lines))
          \<le> fail_count ?t2"
    by blast
  show ?case
  proof (cases "is_test_case line")
    case False
    from body_not_case [OF False, of os pb i out cat t] a1 a2 a3 a4 a5 False
    show ?thesis
      by (intro exI [of _ arts]) (simp add: test_cases_def)
  next
    case True
    from body_case [OF True, of os pb i out cat t]
    consider (ok) b where "success_count ?t1 = success_count t + 1"
        "fail_count ?t1 = fail_count t"
        "written (tally_env ?t1)
           = written (tally_env t) @ [(bin_path_of out cat (StrSplit line CHR '' '' ! 0), b)]"
      | (failed) "success_count ?t1 = success_count t" "fail_count ?t1 = fail_count t + 1"
        "written (tally_env ?t1) = written (tally_env t)"
      by blast
    then show ?thesis
    proof cases
      case ok
      have nf: "StrSplit line CHR '' '' ! 1 \<in> set conformance_messages"
        using body_unknown_type [OF True, of os pb i out cat t] ok(2) by auto
      from ok a1 a2 a3 a4 a5 True nf show ?thesis
        by (intro exI [of _ "(bin_path_of out cat (StrSplit line CHR '' '' ! 0), b) # arts"])
           (simp add: test_cases_def)
    next
      case failed
      from failed a1 a2 a3 a4 a5 True show ?thesis
        by (intro exI [of _ arts]) (auto simp: test_cases_def intro: subseq_Cons')
    qed
  qed
qed


lemma loop_tally_start:
  "\<exists>arts.
     written (tally_env (ProcessCategory_loop os pb i out cat e lines)) = written e @ arts
     \<and> success_count (ProcessCategory_loop os pb i out cat e lines) = length arts
     \<and> success_count (ProcessCategory_loop os pb i out cat e lines)
         + fail_count (ProcessCategory_loop os pb i out cat e lines)
         = length (test_cases lines)
     \<and> subseq (map fst arts) (map (\<lambda>c. bin_path_of out cat (fst c)) (test_cases lines))
     \<and> length (filter (\<lambda>c. snd c \<notin> set conformance_messages) (test_cases lines))
         \<le> fail_count (ProcessCategory_loop os pb i out cat e lines)"
  using loop_tally [of os pb i out cat
      "\<lparr>success_count = 0, fail_count = 0, tally_env = e\<rparr>" lines]
  by (simp add: ProcessCategory_loop_def)

lemma ProcessCategory_present:
  assumes "ifstream_read os (world e) (tests_file_of i cat) = Some content"
  shows "ProcessCategory os pb i out cat e =
    (fail_count (ProcessCategory_loop os pb i out cat e (getlines [] content)) = 0,
     (tally_env (ProcessCategory_loop os pb i out cat e (getlines [] content)))
       \<lparr>cout := cout (tally_env (ProcessCategory_loop os pb i out cat e (getlines [] content)))
          @ ''Category '' @ cat @ '': ''
          @ show_nat (success_count (ProcessCategory_loop os pb i out cat e (getlines [] content)))
          @ '' succeeded, ''
          @ show_nat (fail_count (ProcessCategory_loop os pb i out cat e (getlines [] content)))
          @ '' failed'' @ endl\<rparr>)"
  using assms by (simp add: ProcessCategory_def Let_def)

text \<open>
  One turn of the loop against the account of one test case: a line that is no test case
  leaves counters, file system and written files alone; a test case raises the success
  counter when its verdict is \<open>Generated\<close> and the failure counter otherwise, and leaves
  the file system of its verdict.
\<close>

lemma body_skip:
  "\<not> is_test_case line \<Longrightarrow>
     success_count (ProcessCategory_body os pb i out cat t line) = success_count t
     \<and> fail_count (ProcessCategory_body os pb i out cat t line) = fail_count t
     \<and> world (tally_env (ProcessCategory_body os pb i out cat t line)) = world (tally_env t)
     \<and> written (tally_env (ProcessCategory_body os pb i out cat t line)) = written (tally_env t)"
  by (auto simp: ProcessCategory_body_def is_test_case_def Let_def)

lemma ProcessTestCase_verdict:
  assumes "T \<in> set conformance_messages"
    and "case_verdict os pb i out cat (world e) (name, T) = (v, w')"
    and "ProcessTestCase os pb T (textproto_path_of i cat name) (bin_path_of out cat name) e
           = (ok, e')"
  shows "ok = is_generated v \<and> world e' = w' \<and> written e' = written e @ artifact v"
  using assms
  by (auto simp: case_verdict_def ProcessTestCase_def ReadFile_def FileExists_def WriteFile_def
      Let_def split: option.splits if_splits)

lemma body_verdict:
  assumes "is_test_case line"
    and "case_verdict os pb i out cat (world (tally_env t))
           (StrSplit line CHR '' '' ! 0, StrSplit line CHR '' '' ! 1) = (v, w')"
  shows "success_count (ProcessCategory_body os pb i out cat t line)
           = success_count t + (if is_generated v then 1 else 0)
     \<and> fail_count (ProcessCategory_body os pb i out cat t line)
           = fail_count t + (if is_generated v then 0 else 1)
     \<and> world (tally_env (ProcessCategory_body os pb i out cat t line)) = w'
     \<and> written (tally_env (ProcessCategory_body os pb i out cat t line))
           = written (tally_env t) @ artifact v"
proof (cases "StrSplit line CHR '' '' ! 1 \<in> set conformance_messages")
  case False
  with assms show ?thesis
    by (auto simp: ProcessCategory_body_def is_test_case_def Let_def case_verdict_def)
next
  case True
  obtain ok e' where p: "ProcessTestCase os pb (StrSplit line CHR '' '' ! 1)
      (textproto_path_of i cat (StrSplit line CHR '' '' ! 0))
      (bin_path_of out cat (StrSplit line CHR '' '' ! 0)) (tally_env t) = (ok, e')"
    by (cases "ProcessTestCase os pb (StrSplit line CHR '' '' ! 1)
      (textproto_path_of i cat (StrSplit line CHR '' '' ! 0))
      (bin_path_of out cat (StrSplit line CHR '' '' ! 0)) (tally_env t)")
  from ProcessTestCase_verdict [OF True assms(2) p] assms(1) True p show ?thesis
    by (cases ok) (auto simp: ProcessCategory_body_def is_test_case_def Let_def)
qed

lemma loop_verdicts:
  assumes "run_cases os pb i out cat (world (tally_env t)) (test_cases lines) = (vs, w')"
  shows "world (tally_env (foldl (ProcessCategory_body os pb i out cat) t lines)) = w'
     \<and> success_count (foldl (ProcessCategory_body os pb i out cat) t lines)
         = success_count t + length (filter is_generated vs)
     \<and> fail_count (foldl (ProcessCategory_body os pb i out cat) t lines)
         = fail_count t + length (filter (\<lambda>v. \<not> is_generated v) vs)
     \<and> written (tally_env (foldl (ProcessCategory_body os pb i out cat) t lines))
         = written (tally_env t) @ concat (map artifact vs)
     \<and> length vs = length (test_cases lines)"
  using assms
proof (induction lines arbitrary: t vs)
  case Nil
  then show ?case by (simp add: test_cases_def)
next
  case (Cons line lines)
  let ?t1 = "ProcessCategory_body os pb i out cat t line"
  show ?case
  proof (cases "is_test_case line")
    case False
    from Cons.prems False
    have "run_cases os pb i out cat (world (tally_env ?t1)) (test_cases lines) = (vs, w')"
      using body_skip [OF False, of os pb i out cat t] by (simp add: test_cases_def)
    from Cons.IH [OF this] body_skip [OF False, of os pb i out cat t] False show ?thesis
      by (simp add: test_cases_def)
  next
    case True
    let ?c = "(StrSplit line CHR '' '' ! 0, StrSplit line CHR '' '' ! 1)"
    obtain v w1 where cv: "case_verdict os pb i out cat (world (tally_env t)) ?c = (v, w1)"
      by (cases "case_verdict os pb i out cat (world (tally_env t)) ?c")
    obtain vs1 w2 where rc: "run_cases os pb i out cat w1 (test_cases lines) = (vs1, w2)"
      by (cases "run_cases os pb i out cat w1 (test_cases lines)")
    from Cons.prems True cv rc have e: "vs = v # vs1" "w' = w2"
      by (simp_all add: test_cases_def)
    note b = body_verdict [OF True cv]
    from rc b e have "run_cases os pb i out cat (world (tally_env ?t1)) (test_cases lines)
        = (vs1, w')" by simp
    from Cons.IH [OF this] b e True show ?thesis
      by (simp add: test_cases_def)
  qed
qed


lemma JoinPath_inj: "b \<noteq> [] \<Longrightarrow> b' \<noteq> [] \<Longrightarrow> JoinPath a b = JoinPath a b' \<Longrightarrow> b = b'"
  by (auto simp: JoinPath_def split: if_splits)

lemma bin_path_of_inj: "bin_path_of out cat a = bin_path_of out cat b \<Longrightarrow> a = b"
  using JoinPath_inj [of "a @ ''.bin''" "b @ ''.bin''" "JoinPath out cat"]
  by (simp add: bin_path_of_def)

lemma subseq_distinct: "subseq xs ys \<Longrightarrow> distinct ys \<Longrightarrow> distinct xs"
proof (induction rule: list_emb.induct)
  case (list_emb_Cons2 x y xs ys)
  then show ?case by (auto dest: list_emb_set)
qed simp_all

lemma distinct_bin_paths:
  "distinct (map fst cs) \<Longrightarrow> distinct (map (\<lambda>c. bin_path_of out cat (fst c)) cs)"
  by (simp add: distinct_map inj_on_def comp_def) (auto dest: bin_path_of_inj simp: inj_on_def)

text \<open>
  Claim C3. For a category whose \<open>tests.txt\<close> can be read, with \<open>t\<close> the counters the loop
  ends with and \<open>verdicts\<close> the verdicts of its test cases taken one after the other, each
  on the file system the one before it left: every test case of the file has its
  verdict, in order, and no failure ends the loop; the success counter is the number of
  cases whose artifact was generated and the failure counter the number of all others
  (unknown message type, missing input, parse failure, serialize failure, write failure);
  the file system at the end is the one those cases leave, every generated case having
  written its binary to its binary path; the files written are the artifacts of the
  generated cases, in order, and they lie at different paths when the case names differ
  (two cases of one name write the same path, the later over the earlier); the category
  succeeds iff the failure counter is zero; and the line printed last reports the two
  counters.
\<close>

theorem C3_batch_driver:
  assumes "ifstream_read os (world e) (tests_file_of i cat) = Some content"
    and "t = ProcessCategory_loop os pb i out cat e (getlines [] content)"
    and "run_cases os pb i out cat (world e) (test_cases (getlines [] content)) = (verdicts, w')"
  shows "success_count t + fail_count t = length (test_cases (getlines [] content))
    \<and> written (snd (ProcessCategory os pb i out cat e))
        = written e @ new_files e (snd (ProcessCategory os pb i out cat e))
    \<and> length (new_files e (snd (ProcessCategory os pb i out cat e))) = success_count t
    \<and> subseq (map fst (new_files e (snd (ProcessCategory os pb i out cat e))))
         (map (\<lambda>c. bin_path_of out cat (fst c)) (test_cases (getlines [] content)))
    \<and> length (filter (\<lambda>c. snd c \<notin> set conformance_messages)
                 (test_cases (getlines [] content))) \<le> fail_count t
    \<and> fst (ProcessCategory os pb i out cat e) = (fail_count t = 0)
    \<and> cout (snd (ProcessCategory os pb i out cat e))
        = cout (tally_env t) @ ''Category '' @ cat @ '': '' @ show_nat (success_count t)
          @ '' succeeded, '' @ show_nat (fail_count t) @ '' failed'' @ endl
    \<and> length verdicts = length (test_cases (getlines [] content))
    \<and> success_count t = length (filter is_generated verdicts)
    \<and> fail_count t = length (filter (\<lambda>v. \<not> is_generated v) verdicts)
    \<and> world (snd (ProcessCategory os pb i out cat e)) = w'
    \<and> new_files e (snd (ProcessCategory os pb i out cat e)) = concat (map artifact verdicts)
    \<and> (distinct (map fst (test_cases (getlines [] content))) \<longrightarrow>
          distinct (map fst (new_files e (snd (ProcessCategory os pb i out cat e)))))"
proof -
  from loop_tally_start [of os pb i out cat e "getlines [] content"] assms(2)
  obtain arts where
    a1: "written (tally_env t) = written e @ arts" and
    a2: "success_count t = length arts" and
    a3: "success_count t + fail_count t = length (test_cases (getlines [] content))" and
    a4: "subseq (map fst arts)
           (map (\<lambda>c. bin_path_of out cat (fst c)) (test_cases (getlines [] content)))" and
    a5: "length (filter (\<lambda>c. snd c \<notin> set conformance_messages)
           (test_cases (getlines [] content))) \<le> fail_count t"
    by blast
  have p: "ProcessCategory os pb i out cat e =
      (fail_count t = 0,
       (tally_env t)\<lparr>cout := cout (tally_env t) @ ''Category '' @ cat @ '': ''
          @ show_nat (success_count t) @ '' succeeded, '' @ show_nat (fail_count t)
          @ '' failed'' @ endl\<rparr>)"
    using ProcessCategory_present [OF assms(1), of pb out] assms(2) by simp
  have w: "written (snd (ProcessCategory os pb i out cat e)) = written e @ arts"
    using p a1 by simp
  then have n: "new_files e (snd (ProcessCategory os pb i out cat e)) = arts"
    by (simp add: new_files_def)
  from loop_verdicts [of os pb i out cat
      "\<lparr>success_count = 0, fail_count = 0, tally_env = e\<rparr>" "getlines [] content" verdicts w']
    assms(2,3)
  have v: "world (tally_env t) = w'"
    "success_count t = length (filter is_generated verdicts)"
    "fail_count t = length (filter (\<lambda>v. \<not> is_generated v) verdicts)"
    "written (tally_env t) = written e @ concat (map artifact verdicts)"
    "length verdicts = length (test_cases (getlines [] content))"
    by (simp_all add: ProcessCategory_loop_def)
  from v(4) a1 have ar: "arts = concat (map artifact verdicts)" by simp
  have d: "distinct (map fst arts)"
    if "distinct (map fst (test_cases (getlines [] content)))"
    using subseq_distinct [OF a4 distinct_bin_paths [OF that]] .
  have c1: "written (snd (ProcessCategory os pb i out cat e))
        = written e @ new_files e (snd (ProcessCategory os pb i out cat e))"
    using w n by simp
  have c2: "length (new_files e (snd (ProcessCategory os pb i out cat e))) = success_count t"
    using n a2 by simp
  have c3: "subseq (map fst (new_files e (snd (ProcessCategory os pb i out cat e))))
         (map (\<lambda>c. bin_path_of out cat (fst c)) (test_cases (getlines [] content)))"
    using n a4 by simp
  have c4: "fst (ProcessCategory os pb i out cat e) = (fail_count t = 0)"
    using p by simp
  have c5: "cout (snd (ProcessCategory os pb i out cat e))
        = cout (tally_env t) @ ''Category '' @ cat @ '': '' @ show_nat (success_count t)
          @ '' succeeded, '' @ show_nat (fail_count t) @ '' failed'' @ endl"
    using p by simp
  have c6: "world (snd (ProcessCategory os pb i out cat e)) = w'"
    using p v(1) by simp
  have c7: "new_files e (snd (ProcessCategory os pb i out cat e)) = concat (map artifact verdicts)"
    using n ar by simp
  have c8: "distinct (map fst (test_cases (getlines [] content))) \<longrightarrow>
          distinct (map fst (new_files e (snd (ProcessCategory os pb i out cat e))))"
    using n d by simp
  show ?thesis
    using a3 c1 c2 c3 a5 c4 c5 v(5) v(2) v(3) c6 c7 c8 by blast
qed

lemma ProcessCategory_missing:
  "ifstream_read os (world e) (tests_file_of i cat) = None \<Longrightarrow>
   ProcessCategory os pb i out cat e =
     (True, e\<lparr>cerr := cerr e @ ''No tests.txt found: '' @ tests_file_of i cat @ endl\<rparr>)"
  by (simp add: ProcessCategory_def Let_def)

lemma main_generate_all_missing:
  assumes "out \<noteq> []"
    and "\<forall>c \<in> set categories. ifstream_read os w (tests_file_of (input_dir_of out i) c) = None"
  shows "fst (main_generate os pb out i w) = 0
         \<and> world (snd (main_generate os pb out i w)) = w
         \<and> written (snd (main_generate os pb out i w)) = []"
  using assms
  by (simp add: main_generate_def Let_def ProcessCategory_missing categories_def
      input_dir_of_def)

lemma main_generate_failure:
  assumes "out \<noteq> []" and "fst (main_generate os pb out i w) \<noteq> 0"
  shows "\<exists>c \<in> set categories. \<exists>e.
           ifstream_read os (world e) (tests_file_of (input_dir_of out i) c) \<noteq> None
           \<and> \<not> fst (ProcessCategory os pb (input_dir_of out i) out c e)"
proof -
  have m: "\<not> fst (ProcessCategory os pb j out c e) \<Longrightarrow>
           ifstream_read os (world e) (tests_file_of j c) \<noteq> None" for j c e
  proof (cases "ifstream_read os (world e) (tests_file_of j c)")
    case None
    assume "\<not> fst (ProcessCategory os pb j out c e)"
    with ProcessCategory_missing [OF None, of pb out] show ?thesis by simp
  qed simp
  from assms obtain c e where "c \<in> set categories"
    and "\<not> fst (ProcessCategory os pb (input_dir_of out i) out c e)"
    by (auto simp: main_generate_def Let_def categories_def input_dir_of_def
        split: if_splits)
  with m [of "input_dir_of out i" c e] show ?thesis by blast
qed


text \<open>
  Claim C10. A textproto file that cannot be opened and that \<open>stat\<close> does not find makes
  the test case fail at once. One that exists and is empty is handed to the parser as
  the empty text: when the parser accepts it, the message serializes and the output file
  can be created, the test case writes that file, prints its "Generated" line and succeeds.
\<close>

theorem C10_missing_or_empty_input:
  "(ifstream_read os (world e) tp = None \<and> \<not> stat_ok os (world e) tp \<longrightarrow>
      ProcessTestCase os pb T tp bp e
        = (False, e\<lparr>cerr := cerr e @ ''Failed to open: '' @ tp @ endl\<rparr>))
   \<and> (ifstream_read os (world e) tp = Some [] \<and> stat_ok os (world e) tp
        \<and> TextFormat_ParseFromString pb T [] = Some m \<and> SerializeToString pb m = Some b
        \<and> ofstream_write os (MkdirP os (DirName bp) (world e)) bp b = Some w' \<longrightarrow>
      ProcessTestCase os pb T tp bp e
        = (True, e\<lparr>world := w', written := written e @ [(bp, b)],
                    cout := cout e @ ''Generated: '' @ bp @ '' ('' @ show_nat (length b)
                            @ '' bytes)'' @ endl\<rparr>))"
  by (auto simp: ProcessTestCase_def ReadFile_def FileExists_def WriteFile_def Let_def)


section \<open>A concrete run of the batch driver\<close>

lemma sample_lines:
  "getlines [] sample_tests
     = [''# cases'', ''a Int32Value'', ''b Bogus'', ''bad line here'', ''c Int32Value'',
        ''d Int32Value'']"
  by code_simp

lemma count_engine_named_simps:
  "TextFormat_ParseFromString count_engine_named T input =
     (case parseText [count_schema] no_float_text count_schema input of
        Inl e \<Rightarrow> None | Inr m \<Rightarrow> Some (count_schema, m))"
  "SerializeToString count_engine_named dm = Some (encodeBinary [count_schema] (fst dm) (snd dm))"
  by (simp_all add: count_engine_named_def engine_def)

lemma parse_nothing: "parseText repo cv desc [] = Inr (DynamicMessage [] [])"
  by (simp add: parseText_def)

lemma shown: "show_nat 0 = ''0''" "show_nat 2 = ''2''" "show_nat 3 = ''3''"
  by code_simp+

lemma shown_length: "show_nat (Suc (Suc (Suc 0))) = ''3''"
  using shown(3) by (simp add: numeral_3_eq_3)

lemma paths:
  "tests_file_of ''in'' ''scalars'' = ''in/scalars/tests.txt''"
  "textproto_path_of ''in'' ''scalars'' ''a'' = ''in/scalars/a.textproto''"
  "textproto_path_of ''in'' ''scalars'' ''c'' = ''in/scalars/c.textproto''"
  "textproto_path_of ''in'' ''scalars'' ''d'' = ''in/scalars/d.textproto''"
  "bin_path_of ''out'' ''scalars'' ''a'' = ''out/scalars/a.bin''"
  "bin_path_of ''out'' ''scalars'' ''c'' = ''out/scalars/c.bin''"
  "bin_path_of ''out'' ''scalars'' ''d'' = ''out/scalars/d.bin''"
  by code_simp+

lemma splits:
  "StrSplit ''a Int32Value'' CHR '' '' = [''a'', ''Int32Value'']"
  "StrSplit ''b Bogus'' CHR '' '' = [''b'', ''Bogus'']"
  "StrSplit ''bad line here'' CHR '' '' = [''bad'', ''line'', ''here'']"
  "StrSplit ''c Int32Value'' CHR '' '' = [''c'', ''Int32Value'']"
  "StrSplit ''d Int32Value'' CHR '' '' = [''d'', ''Int32Value'']"
  by code_simp+

lemma known_types:
  "''Int32Value'' \<in> set conformance_messages" "''Bogus'' \<notin> set conformance_messages"
  by code_simp+

lemma mem_os_simps:
  "ifstream_read mem_os w path = map_of (mem_files w) path"
  "stat_ok mem_os w path = (map_of (mem_files w) path \<noteq> None)"
  "mkdir mem_os w path = w"
  "ofstream_write mem_os w path data =
     (if path \<in> set (mem_readonly w) then None
      else Some (w\<lparr>mem_files := (path, data) # mem_files w\<rparr>))"
  by (simp_all add: mem_os_def)

lemma MkdirP_loop_mem: "MkdirP_loop mem_os current path w = w"
  by (induction path arbitrary: current w) (simp_all add: mem_os_simps)

lemma MkdirP_mem: "MkdirP mem_os path w = w"
  by (simp add: MkdirP_def MkdirP_loop_mem mem_os_simps)

lemma mem_case:
  "ProcessTestCase mem_os count_engine_named T tp bp e =
    (case map_of (mem_files (world e)) tp of
       None \<Rightarrow> (False, e\<lparr>cerr := cerr e @ ''Failed to open: '' @ tp @ endl\<rparr>)
     | Some content \<Rightarrow>
         (case parseText [count_schema] no_float_text count_schema content of
            Inl err \<Rightarrow> (False, e\<lparr>cerr := cerr e @ ''Failed to parse: '' @ tp @ endl\<rparr>)
          | Inr m \<Rightarrow>
              if bp \<in> set (mem_readonly (world e))
              then (False, e\<lparr>cerr := cerr e @ ''Failed to create: '' @ bp @ endl\<rparr>)
              else (True,
                e\<lparr>world := (world e)\<lparr>mem_files :=
                     (bp, encodeBinary [count_schema] count_schema m) # mem_files (world e)\<rparr>,
                  written := written e @ [(bp, encodeBinary [count_schema] count_schema m)],
                  cout := cout e @ ''Generated: '' @ bp @ '' (''
                      @ show_nat (length (encodeBinary [count_schema] count_schema m))
                      @ '' bytes)'' @ endl\<rparr>)))"
  by (simp add: ProcessTestCase_def ReadFile_def FileExists_def WriteFile_def Let_def
      MkdirP_mem count_engine_named_simps mem_os_simps split: option.splits sum.splits)

lemma sample_tests_file:
  "ifstream_read mem_os (world (env_of sample_files)) (tests_file_of ''in'' ''scalars'')
     = Some sample_tests"
  by (simp add: mem_os_simps env_of_def sample_files_def paths)

lemma env_of_simps:
  "world (env_of files) = \<lparr>mem_files = files, mem_readonly = []\<rparr>"
  "cout (env_of files) = []" "cerr (env_of files) = []" "written (env_of files) = []"
  by (simp_all add: env_of_def)

text \<open>The second category on the file system in memory.\<close>

lemma mixed_cases:
  "test_cases (getlines [] mixed_tests)
     = [(''a'', ''Int32Value''), (''b'', ''Bogus''), (''a'', ''Int32Value''),
        (''c'', ''Int32Value''), (''p'', ''Int32Value''), (''r'', ''Int32Value''),
        (''d'', ''Int32Value'')]"
  by code_simp

lemma mixed_paths:
  "textproto_path_of ''in'' ''scalars'' ''p'' = ''in/scalars/p.textproto''"
  "textproto_path_of ''in'' ''scalars'' ''r'' = ''in/scalars/r.textproto''"
  "bin_path_of ''out'' ''scalars'' ''p'' = ''out/scalars/p.bin''"
  "bin_path_of ''out'' ''scalars'' ''r'' = ''out/scalars/r.bin''"
  by code_simp+

lemma count_parse_unknown: "parseText repo cv count_schema ''cnt: 1'' = Inl UnknownFieldName"
  by code_simp

lemma mixed_run:
  "run_cases mem_os count_engine_named ''in'' ''out'' ''scalars'' (world mixed_env)
      (test_cases (getlines [] mixed_tests))
    = ([Generated ''out/scalars/a.bin'' [CHR 0x08, CHR 0xAC, CHR 0x02], UnknownType,
        Generated ''out/scalars/a.bin'' [CHR 0x08, CHR 0xAC, CHR 0x02],
        Generated ''out/scalars/c.bin'' [], ParseFailure, WriteFailure, MissingInput],
       \<lparr>mem_files = (''out/scalars/c.bin'', [])
          # (''out/scalars/a.bin'', [CHR 0x08, CHR 0xAC, CHR 0x02])
          # (''out/scalars/a.bin'', [CHR 0x08, CHR 0xAC, CHR 0x02]) # mixed_files,
        mem_readonly = [''out/scalars/r.bin'']\<rparr>)"
  unfolding mixed_cases
  by (simp add: case_verdict_def known_types paths mixed_paths mem_os_simps MkdirP_mem
      count_engine_named_simps mixed_env_def mixed_files_def count_parse parse_nothing
      count_parse_unknown count_encode encode_empty Let_def del: One_nat_def)

lemma mixed_tests_file:
  "ifstream_read mem_os (world mixed_env) (tests_file_of ''in'' ''scalars'') = Some mixed_tests"
  by (simp add: mem_os_simps mixed_env_def mixed_files_def paths)

text \<open>
  The theorem of claim C3 on the second category: three successes, two of them at the
  same path, and four failures of four kinds.
\<close>

theorem C3_batch_driver_witness:
  "success_count (ProcessCategory_loop mem_os count_engine_named ''in'' ''out'' ''scalars''
      mixed_env (getlines [] mixed_tests)) = 3
   \<and> fail_count (ProcessCategory_loop mem_os count_engine_named ''in'' ''out'' ''scalars''
      mixed_env (getlines [] mixed_tests)) = 4
   \<and> length (test_cases (getlines [] mixed_tests)) = 7
   \<and> world (snd (ProcessCategory mem_os count_engine_named ''in'' ''out'' ''scalars'' mixed_env))
       = \<lparr>mem_files = (''out/scalars/c.bin'', [])
            # (''out/scalars/a.bin'', [CHR 0x08, CHR 0xAC, CHR 0x02])
            # (''out/scalars/a.bin'', [CHR 0x08, CHR 0xAC, CHR 0x02]) # mixed_files,
          mem_readonly = [''out/scalars/r.bin'']\<rparr>
   \<and> new_files mixed_env
        (snd (ProcessCategory mem_os count_engine_named ''in'' ''out'' ''scalars'' mixed_env))
       = [(''out/scalars/a.bin'', [CHR 0x08, CHR 0xAC, CHR 0x02]),
          (''out/scalars/a.bin'', [CHR 0x08, CHR 0xAC, CHR 0x02]),
          (''out/scalars/c.bin'', [])]
   \<and> fst (ProcessCategory mem_os count_engine_named ''in'' ''out'' ''scalars'' mixed_env) = False"
  using C3_batch_driver [OF mixed_tests_file refl mixed_run]
  by (simp add: mixed_cases)

lemma sample_missing:
  "c \<noteq> ''scalars'' \<Longrightarrow> c \<in> set categories \<Longrightarrow>
   map_of sample_files (tests_file_of ''in'' c) = None"
  by (auto simp: sample_files_def categories_def tests_file_of_def JoinPath_def)

lemma sample_main:
  "fst (main_generate mem_os count_engine_named ''out'' ''in''
          \<lparr>mem_files = sample_files, mem_readonly = []\<rparr>) = 1"
proof -
  have e0: "\<lparr>world = \<lparr>mem_files = sample_files, mem_readonly = []\<rparr>, cout = c, cerr = [],
             written = []\<rparr> = (env_of sample_files)\<lparr>cout := c\<rparr>" for c
    by (simp add: env_of_def)
  have l: "ProcessCategory_loop mem_os count_engine_named ''in'' ''out'' ''scalars''
             ((env_of sample_files)\<lparr>cout := c\<rparr>) (getlines [] sample_tests)
           = t \<Longrightarrow> fail_count t = 2" for c t
    unfolding sample_lines ProcessCategory_loop_def
    by (auto simp add: ProcessCategory_body_def splits known_types paths mem_case env_of_def
      sample_files_def count_parse parse_nothing count_encode encode_empty Let_def
      simp del: One_nat_def)
  have f: "ifstream_read mem_os (world ((env_of sample_files)\<lparr>cout := c\<rparr>))
             (tests_file_of ''in'' ''scalars'') = Some sample_tests" for c
    by (simp add: mem_os_simps env_of_def sample_files_def paths)
  have "\<not> fst (ProcessCategory mem_os count_engine_named ''in'' ''out'' ''scalars''
                 ((env_of sample_files)\<lparr>cout := c\<rparr>))" for c
    using l [OF refl, of c] by (simp add: ProcessCategory_present [OF f])
  then show ?thesis
    by (simp add: main_generate_def Let_def e0)
qed


text \<open>
  The theorem of claim C10 on the sample directory: \<open>d.textproto\<close> is missing,
  \<open>c.textproto\<close> is empty.
\<close>

theorem C10_missing_or_empty_input_witness:
  "ProcessTestCase mem_os count_engine_named ''Int32Value'' ''in/scalars/d.textproto''
      ''out/scalars/d.bin'' (env_of sample_files)
     = (False, (env_of sample_files)\<lparr>cerr := ''Failed to open: in/scalars/d.textproto'' @ endl\<rparr>)
   \<and> ProcessTestCase mem_os count_engine_named ''Int32Value'' ''in/scalars/c.textproto''
      ''out/scalars/c.bin'' (env_of sample_files)
     = (True, (env_of sample_files)
          \<lparr>world := \<lparr>mem_files = (''out/scalars/c.bin'', []) # sample_files, mem_readonly = []\<rparr>,
           written := [(''out/scalars/c.bin'', [])],
           cout := ''Generated: out/scalars/c.bin (0 bytes)'' @ endl\<rparr>)"
proof -
  have h1: "ifstream_read mem_os (world (env_of sample_files)) ''in/scalars/d.textproto'' = None
      \<and> \<not> stat_ok mem_os (world (env_of sample_files)) ''in/scalars/d.textproto''"
    by (simp add: mem_os_simps env_of_simps sample_files_def)
  have h2: "ifstream_read mem_os (world (env_of sample_files)) ''in/scalars/c.textproto'' = Some []
      \<and> stat_ok mem_os (world (env_of sample_files)) ''in/scalars/c.textproto''
      \<and> TextFormat_ParseFromString count_engine_named ''Int32Value'' []
          = Some (count_schema, DynamicMessage [] [])
      \<and> SerializeToString count_engine_named (count_schema, DynamicMessage [] []) = Some []
      \<and> ofstream_write mem_os
           (MkdirP mem_os (DirName ''out/scalars/c.bin'') (world (env_of sample_files)))
           ''out/scalars/c.bin'' []
          = Some \<lparr>mem_files = (''out/scalars/c.bin'', []) # sample_files, mem_readonly = []\<rparr>"
    by (simp add: mem_os_simps env_of_simps sample_files_def count_engine_named_simps
        parse_nothing encode_empty MkdirP_mem)
  show ?thesis
    using C10_missing_or_empty_input [of mem_os "env_of sample_files" "''in/scalars/d.textproto''"
        count_engine_named "''Int32Value''" "''out/scalars/d.bin''"] h1
      C10_missing_or_empty_input [of mem_os "env_of sample_files" "''in/scalars/c.textproto''"
        count_engine_named "''Int32Value''" "''out/scalars/c.bin''"
        "(count_schema, DynamicMessage [] [])" "[]"
        "\<lparr>mem_files = (''out/scalars/c.bin'', []) # sample_files, mem_readonly = []\<rparr>"] h2
    by (simp add: env_of_simps shown)
qed

end
